theory Spec2Isabelle
  imports Complex_Main "HOL-Library.Char_ord" "HOL-Library.List_Lexorder"
    "HOL-Library.Product_Lexorder"
begin

section \<open>Python strings\<close>

text \<open>
  A Python \<open>str\<close> is modelled as a \<open>string\<close> whose characters are read as the code
  points 0..255.  On these code points \<open>str.strip()\<close> removes exactly the characters
  for which \<open>str.isspace()\<close> holds: 9-13, 28-32, 133 and 160.  \<open>str.lower()\<close> maps
  A-Z and the Latin-1 capitals 192-222 (without 215) to the letter 32 places further;
  \<open>str.upper()\<close> maps a-z and 224-254 (without 247) back.  The three code points
  181, 223 and 255, whose upper-case forms lie outside the 8-bit range, are left as
  they are by \<open>upper_py\<close>.
\<close>

definition is_space :: "char \<Rightarrow> bool" where
  "is_space c = (let n = (of_char c :: nat) in
     (9 \<le> n \<and> n \<le> 13) \<or> (28 \<le> n \<and> n \<le> 32) \<or> n = 133 \<or> n = 160)"

definition strip :: "string \<Rightarrow> string" where
  "strip s = rev (dropWhile is_space (rev (dropWhile is_space s)))"

definition upper_char :: "char \<Rightarrow> char" where
  "upper_char c = (let n = (of_char c :: nat) in
     if (97 \<le> n \<and> n \<le> 122) \<or> (224 \<le> n \<and> n \<le> 254 \<and> n \<noteq> 247)
     then char_of (n - 32) else c)"

definition lower_char :: "char \<Rightarrow> char" where
  "lower_char c = (let n = (of_char c :: nat) in
     if (65 \<le> n \<and> n \<le> 90) \<or> (192 \<le> n \<and> n \<le> 222 \<and> n \<noteq> 215)
     then char_of (n + 32) else c)"

definition upper_py :: "string \<Rightarrow> string" where
  "upper_py s = map upper_char s"

definition lower_py :: "string \<Rightarrow> string" where
  "lower_py s = map lower_char s"

text \<open>\<open>sep.join(xs)\<close>\<close>

fun join :: "string \<Rightarrow> string list \<Rightarrow> string" where
  "join sep [] = []"
| "join sep [x] = x"
| "join sep (x # y # ys) = x @ sep @ join sep (y # ys)"

text \<open>The apostrophe, which cannot be written inside a string literal.\<close>

definition apo :: string where
  "apo = [CHR 0x27]"

text \<open>An entry is blank when it is empty or consists of white space only.\<close>

definition blank :: "string \<Rightarrow> bool" where
  "blank s = (\<forall>c \<in> set s. is_space c)"

section \<open>build_filter\<close>

text \<open>
  The comprehension \<open>[f"<field> eq '{c.strip().upper()}'" for c in xs if c.strip()]\<close>
  of lines 35 and 40.
\<close>

definition eq_clauses :: "string \<Rightarrow> string list \<Rightarrow> string list" where
  "eq_clauses field xs =
     map (\<lambda>c. field @ '' eq '' @ apo @ upper_py (strip c) @ apo)
       (filter (\<lambda>c. strip c \<noteq> []) xs)"

text \<open>
  The list \<open>parts\<close> as it stands at line 47.  \<open>states\<close>, \<open>start\<close> and \<open>end\<close> are
  \<open>Optional\<close>; an \<open>if x:\<close> on them fails for \<open>None\<close> and for the empty value.
\<close>

definition filter_parts ::
  "string list option \<Rightarrow> string option \<Rightarrow> string option \<Rightarrow> string list \<Rightarrow> bool \<Rightarrow> string list"
where
  "filter_parts states start end categories incident_contains =
    (let parts =
       (if incident_contains
        then [''(substringof('' @ apo @ ''Fire'' @ apo @ '',incidentType) or substringof(''
               @ apo @ ''Wildfire'' @ apo @ '',incidentType))'']
        else [''incidentType eq '' @ apo @ ''Fire'' @ apo]);
      parts =
       (if categories \<noteq> [] then
          (let cat_or = join '' or '' (eq_clauses ''damageCategoryCode'' categories)
           in if cat_or \<noteq> [] then parts @ [''('' @ cat_or @ '')''] else parts)
        else parts);
      parts =
       (case states of
          Some (s # ss) \<Rightarrow>
            (let state_filters = eq_clauses ''stateAbbreviation'' (s # ss)
             in if state_filters \<noteq> []
                then parts @ [''('' @ join '' or '' state_filters @ '')''] else parts)
        | _ \<Rightarrow> parts);
      parts =
       (case start of
          Some (c # cs) \<Rightarrow> parts @ [''dateObligated ge '' @ apo @ (c # cs) @ apo]
        | _ \<Rightarrow> parts);
      parts =
       (case end of
          Some (c # cs) \<Rightarrow> parts @ [''dateObligated le '' @ apo @ (c # cs) @ apo]
        | _ \<Rightarrow> parts)
     in parts)"

definition build_filter ::
  "string list option \<Rightarrow> string option \<Rightarrow> string option \<Rightarrow> string list \<Rightarrow> bool \<Rightarrow> string"
where
  "build_filter states start end categories incident_contains =
     join '' and '' (filter_parts states start end categories incident_contains)"

text \<open>
  Lines 142-146 of the run handler.  \<open>s.split(",")\<close> is \<open>split_on\<close>; the two dates
  are rendered by \<open>date.isoformat\<close>, a library function taken as the parameter
  \<open>isoformat\<close>.
\<close>

fun split_on :: "char \<Rightarrow> string \<Rightarrow> string list" where
  "split_on d [] = [[]]"
| "split_on d (c # cs) =
     (if c = d then [] # split_on d cs
      else (case split_on d cs of [] \<Rightarrow> [[c]] | w # ws \<Rightarrow> (c # w) # ws))"

definition run_states :: "string \<Rightarrow> string list option" where
  "run_states states_input =
     (if states_input \<noteq> []
      then Some (map (\<lambda>s. upper_py (strip s))
                   (filter (\<lambda>s. strip s \<noteq> []) (split_on CHR '','' states_input)))
      else None)"

definition run_filter ::
  "('d \<Rightarrow> string) \<Rightarrow> string \<Rightarrow> 'd option \<Rightarrow> 'd option \<Rightarrow> string list \<Rightarrow> bool \<Rightarrow> string"
where
  "run_filter isoformat states_input start_date end_date cats incident_contains =
     build_filter (run_states states_input) (map_option isoformat start_date)
       (map_option isoformat end_date) cats incident_contains"

text \<open>Lines 158-159: the keyword lists handed to the classifier.\<close>

definition keyword_list :: "string \<Rightarrow> string list" where
  "keyword_list txt =
     map (\<lambda>x. lower_py (strip x)) (filter (\<lambda>x. strip x \<noteq> []) (split_on CHR '','' txt))"

section \<open>fetch_all\<close>

text \<open>
  A decoded JSON value.  Numbers are exact rationals: the float arithmetic of the
  progress fraction is read over the rationals.  \<open>JNull\<close> is Python's \<open>None\<close>.  A
  \<open>JObj\<close> lists the items of a \<open>dict\<close> in iteration order, so its keys are distinct.
\<close>

datatype json =
    JNull
  | JBool bool
  | JNum rat
  | JStr string
  | JArr "json list"
  | JObj "(string \<times> json) list"

datatype error =
    RuntimeError string
  | JSONDecodeError
  | AttributeError
  | TypeError

text \<open>
  What \<open>session.get\<close> hands back: the status, the body text, and the value of
  \<open>resp.json()\<close> (\<open>None\<close> when the body does not decode, where \<open>json()\<close> raises).
\<close>

record response =
  status_code :: nat
  resp_text :: string
  resp_json :: "json option"

text \<open>The local variables of \<open>fetch_all\<close> across the loop, with the calls made so far
  on the progress observer and the number of requests issued.\<close>

record fetch_state =
  records :: "json list"
  skip :: nat
  total_count :: json
  last_url :: string
  reported :: "rat list"
  requests :: nat

text \<open>
  How the loop is left (\<open>break\<close> or a raised exception) and how the call ends: with
  the returned triple, whose first component is a data frame of type \<open>'f\<close>, or with
  a raised exception.
\<close>

datatype ending = Break | Raise error

datatype 'f outcome =
    Returned 'f string json
  | Raised error

text \<open>\<open>str(n)\<close> for a natural number.\<close>

fun str_nat :: "nat \<Rightarrow> string" where
  "str_nat n =
     (if n < 10 then [char_of (48 + n)]
      else str_nat (n div 10) @ [char_of (48 + n mod 10)])"

declare str_nat.simps [simp del]

definition top :: nat where
  "top = 1000"

text \<open>\<open>d[k] = v\<close> on a dictionary kept as its item list.\<close>

fun dict_set :: "string \<Rightarrow> 'v \<Rightarrow> (string \<times> 'v) list \<Rightarrow> (string \<times> 'v) list" where
  "dict_set k v [] = [(k, v)]"
| "dict_set k v ((k', v') # kvs) =
     (if k' = k then (k, v) # kvs else (k', v') # dict_set k v kvs)"

definition base_params :: "string \<Rightarrow> string list option \<Rightarrow> (string \<times> string) list" where
  "base_params filters select_fields =
     (let base = [(''$filter'', filters), (''$top'', str_nat top), (''$skip'', str_nat 0),
                  (''$format'', ''json''), (''$count'', ''true'')]
      in case select_fields of
           Some (f # fs) \<Rightarrow> dict_set ''$select'' (join '','' (f # fs)) base
         | _ \<Rightarrow> base)"

definition API_BASE :: string where
  "API_BASE = ''https://www.fema.gov/api/open/v2/PublicAssistanceGrantAwardActivities''"

text \<open>Lines 66-68; \<open>urllib.parse.urlencode\<close> is the parameter \<open>urlencode\<close>.\<close>

definition page_url ::
  "((string \<times> string) list \<Rightarrow> string) \<Rightarrow> string \<Rightarrow> string list option \<Rightarrow> nat \<Rightarrow> string"
where
  "page_url urlencode filters select_fields sk =
     API_BASE @ ''?'' @
       urlencode (dict_set ''$skip'' (str_nat sk) (base_params filters select_fields))"

text \<open>Python's truth value of a decoded JSON value.\<close>

fun truthy :: "json \<Rightarrow> bool" where
  "truthy JNull = False"
| "truthy (JBool b) = b"
| "truthy (JNum r) = (r \<noteq> 0)"
| "truthy (JStr s) = (s \<noteq> [])"
| "truthy (JArr xs) = (xs \<noteq> [])"
| "truthy (JObj kvs) = (kvs \<noteq> [])"

fun is_list :: "json \<Rightarrow> bool" where
  "is_list (JArr xs) = True"
| "is_list _ = False"

text \<open>Lines 74-78: the key of the first list-valued item, if there is one.\<close>

fun find_data_key :: "(string \<times> json) list \<Rightarrow> string option" where
  "find_data_key [] = None"
| "find_data_key ((k, v) # kvs) = (if is_list v then Some k else find_data_key kvs)"

text \<open>
  Line 79, \<open>payload.get(data_key, [])\<close>.  No key of the payload is \<open>None\<close>, so without
  a data key the default \<open>[]\<close> is taken.  With a data key the value found is a list,
  the keys of a dictionary being distinct (\<open>page_rows_distinct\<close> below); the last
  case is there for totality only.
\<close>

definition page_rows :: "(string \<times> json) list \<Rightarrow> json list" where
  "page_rows payload =
     (case find_data_key payload of
        None \<Rightarrow> []
      | Some k \<Rightarrow> (case map_of payload k of Some (JArr xs) \<Rightarrow> xs | _ \<Rightarrow> []))"

text \<open>
  Lines 81-82: \<open>payload.get("metadata", {}).get("count", 0)\<close>.  A metadata value that
  is not an object has no \<open>get\<close>.
\<close>

definition metadata_count :: "(string \<times> json) list \<Rightarrow> error + json" where
  "metadata_count payload =
     (case map_of payload ''metadata'' of
        None \<Rightarrow> Inr (JNum 0)
      | Some (JObj md) \<Rightarrow> Inr (case map_of md ''count'' of None \<Rightarrow> JNum 0 | Some v \<Rightarrow> v)
      | Some _ \<Rightarrow> Inl AttributeError)"

text \<open>\<open>max(total_count, 1)\<close>: a number or a boolean compares with 1, nothing else does.\<close>

fun max_count :: "json \<Rightarrow> error + rat" where
  "max_count (JNum r) = Inr (max r 1)"
| "max_count (JBool b) = Inr 1"
| "max_count _ = Inl TypeError"

definition fraction :: "nat \<Rightarrow> rat \<Rightarrow> rat" where
  "fraction n m = min 1 (of_nat n / m)"

text \<open>\<open>total_count or 0\<close>\<close>

definition or_zero :: "json \<Rightarrow> json" where
  "or_zero c = (if truthy c then c else JNum 0)"

text \<open>
  One pass through the body of \<open>while True\<close> (lines 66-90).  The result is the state
  after the pass and \<open>None\<close> when the loop goes round again, or how the loop is left.
  \<open>get n url\<close> is the response to the \<open>n\<close>-th request of the session (requests
  that fail to connect or time out are outside the model); \<open>progress\<close> tells whether
  an observer was given.
\<close>

definition fetch_page ::
  "(nat \<Rightarrow> string) \<Rightarrow> (nat \<Rightarrow> string \<Rightarrow> response) \<Rightarrow> bool \<Rightarrow> fetch_state
     \<Rightarrow> fetch_state \<times> ending option"
where
  "fetch_page mk_url get progress st =
    (let url = mk_url (skip st);
         resp = get (requests st) url;
         st = st\<lparr>last_url := url, requests := requests st + 1\<rparr>
     in if status_code resp \<noteq> 200
        then (st, Some (Raise (RuntimeError
               (''HTTP '' @ str_nat (status_code resp) @ '': '' @ take 500 (resp_text resp)))))
        else case resp_json resp of
          None \<Rightarrow> (st, Some (Raise JSONDecodeError))
        | Some (JObj payload) \<Rightarrow>
            (let rows = page_rows payload in
             case (if total_count st = JNull then metadata_count payload
                   else Inr (total_count st)) of
               Inl e \<Rightarrow> (st, Some (Raise e))
             | Inr tc \<Rightarrow>
                (let st = st\<lparr>total_count := tc\<rparr> in
                 if rows = []
                 then (st, Some Break)
                 else
                  (let st = st\<lparr>records := records st @ rows, skip := skip st + top\<rparr> in
                   case (if progress \<and> truthy tc
                         then map_sum id (\<lambda>m. [fraction (length (records st)) m]) (max_count tc)
                         else Inr []) of
                     Inl e \<Rightarrow> (st, Some (Raise e))
                   | Inr fs \<Rightarrow>
                      (let st = st\<lparr>reported := reported st @ fs\<rparr> in
                       if length rows < top
                       then (st, Some Break)
                       else (st, None)))))
        | Some _ \<Rightarrow> (st, Some (Raise AttributeError)))"

text \<open>
  The loop may run for ever (a source that always delivers full pages), so it is run
  on fuel: \<open>None\<close> in the second component says that the fuel ran out with the loop
  still going.
\<close>

fun fetch_loop ::
  "nat \<Rightarrow> (nat \<Rightarrow> string) \<Rightarrow> (nat \<Rightarrow> string \<Rightarrow> response) \<Rightarrow> bool \<Rightarrow> fetch_state
     \<Rightarrow> fetch_state \<times> ending option"
where
  "fetch_loop 0 mk_url get progress st = (st, None)"
| "fetch_loop (Suc n) mk_url get progress st =
     (case fetch_page mk_url get progress st of
        (st', None) \<Rightarrow> fetch_loop n mk_url get progress st'
      | (st', Some out) \<Rightarrow> (st', Some out))"

definition init_state :: fetch_state where
  "init_state = \<lparr>records = [], skip = 0, total_count = JNull, last_url = [],
                 reported = [], requests = 0\<rparr>"

text \<open>
  Lines 91-92, after the loop: \<open>pd.DataFrame.from_records(records)\<close>, a library
  function taken as the parameter \<open>from_records\<close> (it may raise), and the returned
  triple.  A raised exception passes through, and so does the loop that is still going.
\<close>

definition finish ::
  "(json list \<Rightarrow> error + 'f) \<Rightarrow> fetch_state \<times> ending option
     \<Rightarrow> fetch_state \<times> 'f outcome option"
where
  "finish from_records r =
     (case r of
        (st, None) \<Rightarrow> (st, None)
      | (st, Some (Raise e)) \<Rightarrow> (st, Some (Raised e))
      | (st, Some Break) \<Rightarrow>
          (st, Some (case from_records (records st) of
                       Inl e \<Rightarrow> Raised e
                     | Inr df \<Rightarrow> Returned df (last_url st) (or_zero (total_count st)))))"

definition fetch_all ::
  "nat \<Rightarrow> (json list \<Rightarrow> error + 'f) \<Rightarrow> ((string \<times> string) list \<Rightarrow> string)
     \<Rightarrow> (nat \<Rightarrow> string \<Rightarrow> response) \<Rightarrow> string \<Rightarrow> string list option \<Rightarrow> bool
     \<Rightarrow> fetch_state \<times> 'f outcome option"
where
  "fetch_all fuel from_records urlencode get filters select_fields progress =
     finish from_records
       (fetch_loop fuel (page_url urlencode filters select_fields) get progress init_state)"

section \<open>is_water_utility\<close>

text \<open>
  A cell of the \<open>federalShareObligated\<close> column: null, a number or a string.  The
  other columns read by the code hold a string or null (\<open>None\<close>).
\<close>

datatype cell = Null | Num rat | Str string

record award =
  stateAbbreviation :: "string option"
  applicantId :: "string option"
  applicantName :: "string option"
  projectTitle :: "string option"
  dateObligated :: "string option"
  federalShareObligated :: cell

text \<open>The test \<open>x in s\<close> on strings.\<close>

fun starts_with :: "string \<Rightarrow> string \<Rightarrow> bool" where
  "starts_with [] s = True"
| "starts_with (a # x) [] = False"
| "starts_with (a # x) (b # s) = (a = b \<and> starts_with x s)"

fun str_in :: "string \<Rightarrow> string \<Rightarrow> bool" where
  "str_in x [] = (x = [])"
| "str_in x (c # s) = (starts_with x (c # s) \<or> str_in x s)"

text \<open>\<open>str(v or "")\<close> for a cell holding a string or \<open>None\<close>.\<close>

definition or_empty :: "string option \<Rightarrow> string" where
  "or_empty v = (case v of None \<Rightarrow> [] | Some s \<Rightarrow> s)"

definition is_water_utility :: "award \<Rightarrow> string list \<Rightarrow> string list \<Rightarrow> bool" where
  "is_water_utility row include exclude =
     (let name = lower_py (or_empty (applicantName row));
          title = lower_py (or_empty (projectTitle row))
      in if list_ex (\<lambda>x. str_in x name) exclude then False
         else (let txt = name @ '' '' @ title in list_ex (\<lambda>x. str_in x txt) include))"

section \<open>summarize\<close>

text \<open>
  The pandas operations are modelled on lists of rows.  The parsers of
  \<open>pd.to_numeric\<close> and \<open>pd.to_datetime\<close> for a string and the rendering of a date
  are the parameters \<open>to_numeric\<close>, \<open>to_datetime\<close> and \<open>date_str\<close>; sums of floats
  are read over the rationals.
\<close>

text \<open>\<open>pd.to_numeric(..., errors="coerce").fillna(0.0)\<close> on one cell.\<close>

definition coerce_numeric :: "(string \<Rightarrow> rat option) \<Rightarrow> cell \<Rightarrow> rat" where
  "coerce_numeric to_numeric c =
     (case c of
        Null \<Rightarrow> 0
      | Num r \<Rightarrow> r
      | Str s \<Rightarrow> (case to_numeric s of None \<Rightarrow> 0 | Some r \<Rightarrow> r))"

text \<open>\<open>pd.to_datetime(..., errors="coerce")\<close> on one cell; \<open>None\<close> is \<open>NaT\<close>.\<close>

definition coerce_datetime :: "(string \<Rightarrow> 't option) \<Rightarrow> string option \<Rightarrow> 't option" where
  "coerce_datetime to_datetime v = (case v of None \<Rightarrow> None | Some s \<Rightarrow> to_datetime s)"

text \<open>The aggregations \<open>min\<close> and \<open>max\<close> skip \<open>NaT\<close>.\<close>

definition agg_min :: "('t::linorder) option list \<Rightarrow> 't option" where
  "agg_min ds = (case List.map_filter id ds of [] \<Rightarrow> None | x # xs \<Rightarrow> Some (fold min xs x))"

definition agg_max :: "('t::linorder) option list \<Rightarrow> 't option" where
  "agg_max ds = (case List.map_filter id ds of [] \<Rightarrow> None | x # xs \<Rightarrow> Some (fold max xs x))"

text \<open>A row of the summary; \<open>'d\<close> is the type of the two date columns.\<close>

record 'd summary_row =
  state :: "string option"
  grp_applicantId :: "string option"
  grp_applicantName :: "string option"
  projectCount :: nat
  totalFederalShareObligated :: rat
  firstDateObligated :: 'd
  lastDateObligated :: 'd

definition group_key :: "award \<Rightarrow> string option \<times> string option \<times> string option" where
  "group_key r = (stateAbbreviation r, applicantId r, applicantName r)"

text \<open>
  Sorting puts a missing value last (\<open>dropna=False\<close> in \<open>groupby\<close>,
  \<open>na_position="last"\<close> in \<open>sort_values\<close>) and compares strings by code points.
\<close>

definition na_last :: "string option \<Rightarrow> bool \<times> string" where
  "na_last v = (case v of None \<Rightarrow> (True, []) | Some s \<Rightarrow> (False, s))"

definition key_order ::
  "string option \<times> string option \<times> string option
     \<Rightarrow> (bool \<times> string) \<times> (bool \<times> string) \<times> (bool \<times> string)"
where
  "key_order k = (case k of (s, i, n) \<Rightarrow> (na_last s, na_last i, na_last n))"

text \<open>
  The aggregates of one group (lines 110-113).  \<open>count\<close> on the column \<open>applicantId\<close>
  counts the cells of the group that are not null.
\<close>

definition aggregate ::
  "(string \<Rightarrow> rat option) \<Rightarrow> (string \<Rightarrow> ('t::linorder) option)
     \<Rightarrow> string option \<times> string option \<times> string option \<Rightarrow> award list
     \<Rightarrow> ('t option) summary_row"
where
  "aggregate to_numeric to_datetime k members =
     (case k of (s, i, n) \<Rightarrow>
       \<lparr>state = s, grp_applicantId = i, grp_applicantName = n,
        projectCount = length (filter (\<lambda>r. applicantId r \<noteq> None) members),
        totalFederalShareObligated =
          sum_list (map (\<lambda>r. coerce_numeric to_numeric (federalShareObligated r)) members),
        firstDateObligated =
          agg_min (map (\<lambda>r. coerce_datetime to_datetime (dateObligated r)) members),
        lastDateObligated =
          agg_max (map (\<lambda>r. coerce_datetime to_datetime (dateObligated r)) members)\<rparr>)"

text \<open>
  \<open>groupby([...], dropna=False).agg(...).reset_index()\<close>: one row for each key that
  occurs, the keys in ascending order (\<open>sort=True\<close> is the default of \<open>groupby\<close>).
\<close>

definition groupby_agg ::
  "(string \<Rightarrow> rat option) \<Rightarrow> (string \<Rightarrow> ('t::linorder) option) \<Rightarrow> award list
     \<Rightarrow> ('t option) summary_row list"
where
  "groupby_agg to_numeric to_datetime sdf =
     map (\<lambda>k. aggregate to_numeric to_datetime k (filter (\<lambda>r. group_key r = k) sdf))
       (sort_key key_order (remdups (map group_key sdf)))"

text \<open>
  Line 115: a stable sort, ascending on \<open>state\<close> and descending on
  \<open>totalFederalShareObligated\<close>.
\<close>

definition sort_values :: "'d summary_row list \<Rightarrow> 'd summary_row list" where
  "sort_values grp =
     sort_key (\<lambda>g. (na_last (state g), - totalFederalShareObligated g)) grp"

text \<open>Lines 116-117: \<open>.dt.date.astype(str)\<close> on one row.\<close>

definition render_dates :: "('t \<Rightarrow> string) \<Rightarrow> ('t option) summary_row \<Rightarrow> string summary_row" where
  "render_dates date_str g =
     \<lparr>state = state g, grp_applicantId = grp_applicantId g,
      grp_applicantName = grp_applicantName g, projectCount = projectCount g,
      totalFederalShareObligated = totalFederalShareObligated g,
      firstDateObligated =
        (case firstDateObligated g of None \<Rightarrow> ''NaT'' | Some t \<Rightarrow> date_str t),
      lastDateObligated =
        (case lastDateObligated g of None \<Rightarrow> ''NaT'' | Some t \<Rightarrow> date_str t)\<rparr>"

text \<open>
  What \<open>summarize\<close> returns: the frame it was given (line 104), with the columns of
  the award rows, or a summary frame.
\<close>

datatype frame = Raw "award list" | Summary "string summary_row list"

definition summarize ::
  "(string \<Rightarrow> rat option) \<Rightarrow> (string \<Rightarrow> ('t::linorder) option) \<Rightarrow> ('t \<Rightarrow> string)
     \<Rightarrow> award list \<Rightarrow> string list \<Rightarrow> string list \<Rightarrow> frame"
where
  "summarize to_numeric to_datetime date_str df include exclude =
     (if df = [] then Raw df
      else
       (let sdf = filter (\<lambda>r. is_water_utility r include exclude) df;
            grp = groupby_agg to_numeric to_datetime sdf;
            grp = sort_values grp
        in Summary (map (render_dates date_str) grp)))"

section \<open>Notions used to state the properties\<close>

text \<open>
  The clauses of the filter expression as the specification words them: the entries
  of a list that survive (blank ones dropped, the others trimmed and upper-cased), the
  parenthesised disjunction over the surviving codes, which is absent when none
  survives, the incident-type clause and a date clause.
\<close>

definition surviving :: "string list \<Rightarrow> string list" where
  "surviving entries = map (\<lambda>c. upper_py (strip c)) (filter (\<lambda>c. \<not> blank c) entries)"

definition or_group :: "string \<Rightarrow> string list \<Rightarrow> string list" where
  "or_group field codes =
     (if codes = [] then []
      else [''('' @ join '' or '' (map (\<lambda>c. field @ '' eq '' @ apo @ c @ apo) codes) @ '')''])"

definition date_clause :: "string \<Rightarrow> string option \<Rightarrow> string list" where
  "date_clause rel d =
     (case d of Some (c # cs) \<Rightarrow> [''dateObligated '' @ rel @ '' '' @ apo @ (c # cs) @ apo]
      | _ \<Rightarrow> [])"

definition incident_clause :: "bool \<Rightarrow> string" where
  "incident_clause ic = (if ic
        then ''(substringof('' @ apo @ ''Fire'' @ apo @ '',incidentType) or substringof(''
               @ apo @ ''Wildfire'' @ apo @ '',incidentType))''
        else ''incidentType eq '' @ apo @ ''Fire'' @ apo)"


text \<open>\<open>x\<close> occurs in \<open>s\<close> as a contiguous piece.\<close>

definition substring :: "string \<Rightarrow> string \<Rightarrow> bool" where
  "substring x s = (\<exists>ps ss. s = ps @ x @ ss)"

text \<open>
  Simulated sources for \<open>fetch_all\<close>.  \<open>urlencode_plain\<close> stands in for
  \<open>urlencode\<close> without escaping anything; \<open>ok_response\<close> is a response of status 200
  with the given decoded body; \<open>page_payload n c\<close> is a payload (with the items
  \<open>page_items n c\<close>) that has the count \<open>c\<close> in its metadata and \<open>n\<close> rows, each the
  object \<open>sim_row\<close>; \<open>sim_pages sizes\<close>
  answers the \<open>i\<close>-th request with a page of \<open>sizes ! i\<close> rows (none beyond the list)
  and \<open>sim_failing k sizes\<close> does the same except that request \<open>k\<close> is answered with
  status 503.  \<open>sim_by_offset\<close> looks at the URL only: it answers the URL that
  \<open>page_url\<close> builds for the offset \<open>k * top\<close> with page \<open>k\<close> of the list, and any
  other URL with an empty page.  \<open>sim_no_list_later\<close> answers the first request with a
  full page and every later one with a payload that has no list.

  \<open>from_records_objects\<close> stands in for \<open>DataFrame.from_records\<close> on lists of
  objects, the frame being the list of its rows: one row for each object, and no row
  at all when no object has a key; a list that holds anything but objects makes it
  raise, as \<open>from_records\<close> does for a list of numbers.  \<open>digits_nat\<close> reads a string
  of decimal digits back as a number.
\<close>

definition urlencode_plain :: "(string \<times> string) list \<Rightarrow> string" where
  "urlencode_plain params = join ''&'' (map (\<lambda>(k, v). k @ ''='' @ v) params)"

definition ok_response :: "json \<Rightarrow> response" where
  "ok_response payload = \<lparr>status_code = 200, resp_text = [], resp_json = Some payload\<rparr>"

definition const_source :: "response \<Rightarrow> nat \<Rightarrow> string \<Rightarrow> response" where
  "const_source resp n url = resp"

definition sim_row :: json where
  "sim_row = JObj [(''applicantName'', JStr ''City Water Department'')]"

definition page_items :: "nat \<Rightarrow> rat \<Rightarrow> (string \<times> json) list" where
  "page_items n c =
     [(''metadata'', JObj [(''count'', JNum c)]),
      (''PublicAssistanceGrantAwardActivities'', JArr (replicate n sim_row))]"

definition page_payload :: "nat \<Rightarrow> rat \<Rightarrow> json" where
  "page_payload n c = JObj (page_items n c)"

definition sim_pages :: "nat list \<Rightarrow> nat \<Rightarrow> string \<Rightarrow> response" where
  "sim_pages sizes i url =
     ok_response (page_payload (if i < length sizes then sizes ! i else 0)
                    (of_nat (sum_list sizes)))"

definition sim_failing :: "nat \<Rightarrow> nat list \<Rightarrow> nat \<Rightarrow> string \<Rightarrow> response" where
  "sim_failing k sizes i url =
     (if i = k
      then \<lparr>status_code = 503, resp_text = ''Service Unavailable'', resp_json = None\<rparr>
      else sim_pages sizes i url)"

definition sim_by_offset ::
  "string \<Rightarrow> string list option \<Rightarrow> nat list \<Rightarrow> nat \<Rightarrow> string \<Rightarrow> response"
where
  "sim_by_offset filters select_fields sizes i url =
     (case find (\<lambda>k. url = page_url urlencode_plain filters select_fields (k * top))
             [0..<length sizes] of
        Some k \<Rightarrow> ok_response (page_payload (sizes ! k) (of_nat (sum_list sizes)))
      | None \<Rightarrow> ok_response (page_payload 0 (of_nat (sum_list sizes))))"

definition no_list_payload :: "(string \<times> json) list" where
  "no_list_payload = [(''metadata'', JObj [(''count'', JNum 5)]), (''message'', JStr ''none'')]"

definition sim_no_list_later :: "nat \<Rightarrow> string \<Rightarrow> response" where
  "sim_no_list_later i url =
     (if i = 0 then ok_response (page_payload 1000 2400) else ok_response (JObj no_list_payload))"

fun is_object :: "json \<Rightarrow> bool" where
  "is_object (JObj kvs) = True"
| "is_object _ = False"

definition from_records_objects :: "json list \<Rightarrow> error + json list" where
  "from_records_objects rs =
     (if list_all is_object rs
      then (if list_all (\<lambda>r. r = JObj []) rs then Inr [] else Inr rs)
      else Inl TypeError)"

definition digits_nat :: "string \<Rightarrow> nat" where
  "digits_nat s = fold (\<lambda>c acc. 10 * acc + (of_char c - 48)) s 0"

text \<open>
  The total count as it stands after the pages \<open>0, ..., i - 1\<close> with the payloads
  \<open>p 0, ..., p (i - 1)\<close>: it is read from the metadata of a page as long as it is
  \<open>None\<close>.
\<close>

fun count_after :: "(nat \<Rightarrow> (string \<times> json) list) \<Rightarrow> nat \<Rightarrow> error + json" where
  "count_after p 0 = Inr JNull"
| "count_after p (Suc i) =
     (case count_after p i of
        Inl e \<Rightarrow> Inl e
      | Inr t \<Rightarrow> (if t = JNull then metadata_count (p i) else Inr t))"

text \<open>
  The invariant of the loop behind the order of the progress reports: nothing has been
  reported, or the total count is truthy and comparable, the reports are in order and
  none exceeds the fraction for the rows accumulated so far.
\<close>

definition progress_inv :: "fetch_state \<Rightarrow> bool" where
  "progress_inv st =
     (reported st = [] \<or>
      (truthy (total_count st) \<and>
       (\<exists>m. max_count (total_count st) = Inr m \<and> sorted (reported st) \<and>
            (\<forall>f \<in> set (reported st). f \<le> fraction (length (records st)) m))))"

text \<open>
  For the summary: the rows of a summary frame (none for a frame of award rows), the
  keys of the rows in the order in which they are first met, and stand-ins for the
  library parsers: \<open>to_numeric_digits\<close> reads a non-empty string of decimal digits and
  nothing else, \<open>to_datetime_none\<close> reads no date at all, \<open>date_str_plain\<close> renders a
  time stamp as its number.
\<close>

definition frame_rows :: "frame \<Rightarrow> string summary_row list" where
  "frame_rows f = (case f of Raw df \<Rightarrow> [] | Summary rows \<Rightarrow> rows)"

definition row_key :: "'d summary_row \<Rightarrow> string option \<times> string option \<times> string option" where
  "row_key g = (state g, grp_applicantId g, grp_applicantName g)"

definition first_seen :: "'a list \<Rightarrow> 'a list" where
  "first_seen xs = rev (remdups (rev xs))"

fun digits_value :: "string \<Rightarrow> nat \<Rightarrow> nat option" where
  "digits_value [] acc = Some acc"
| "digits_value (c # cs) acc =
     (if 48 \<le> (of_char c :: nat) \<and> (of_char c :: nat) \<le> 57
      then digits_value cs (10 * acc + (of_char c - 48)) else None)"

definition to_numeric_digits :: "string \<Rightarrow> rat option" where
  "to_numeric_digits s = (if s = [] then None else map_option of_nat (digits_value s 0))"

definition to_datetime_none :: "string \<Rightarrow> nat option" where
  "to_datetime_none s = None"

definition date_str_plain :: "nat \<Rightarrow> string" where
  "date_str_plain t = str_nat t"

definition water_row :: "string option \<Rightarrow> string option \<Rightarrow> string \<Rightarrow> cell \<Rightarrow> award" where
  "water_row st ident name share =
     \<lparr>stateAbbreviation = st, applicantId = ident, applicantName = Some name,
      projectTitle = None, dateObligated = None, federalShareObligated = share\<rparr>"

section \<open>Properties of build_filter\<close>

lemma dropWhile_Nil_iff: "dropWhile P xs = [] \<longleftrightarrow> (\<forall>x\<in>set xs. P x)"
  by (induction xs) auto

lemma strip_Nil_iff: "strip s = [] \<longleftrightarrow> blank s"
proof -
  have "strip s = [] \<longleftrightarrow> (\<forall>x\<in>set (dropWhile is_space s). is_space x)"
    by (simp add: strip_def dropWhile_Nil_iff)
  also have "\<dots> \<longleftrightarrow> dropWhile is_space s = []"
  proof
    assume a: "\<forall>x\<in>set (dropWhile is_space s). is_space x"
    show "dropWhile is_space s = []"
    proof (rule ccontr)
      assume "dropWhile is_space s \<noteq> []"
      then have "\<not> is_space (hd (dropWhile is_space s))" by (rule hd_dropWhile)
      moreover have "hd (dropWhile is_space s) \<in> set (dropWhile is_space s)"
        using \<open>dropWhile is_space s \<noteq> []\<close> by simp
      ultimately show False using a by blast
    qed
  qed (auto dest: set_dropWhileD)
  finally show ?thesis by (simp add: blank_def)
qed

lemma strip_ends:
  assumes "strip s \<noteq> []"
  shows "\<not> is_space (hd (strip s))" and "\<not> is_space (last (strip s))"
proof -
  let ?d = "dropWhile is_space s"
  let ?e = "dropWhile is_space (rev ?d)"
  from assms have e: "?e \<noteq> []" by (simp add: strip_def)
  then have d: "?d \<noteq> []" by (auto dest: set_dropWhileD)
  have "last (strip s) = hd ?e" using e by (simp add: strip_def last_rev)
  then show "\<not> is_space (last (strip s))" using hd_dropWhile[OF e] by simp
  have nl: "\<not> is_space (last (rev ?d))" using d hd_dropWhile[OF d] by (simp add: last_rev)
  have "rev ?d \<noteq> []" using d by simp
  have "last ?e = last (rev ?d)" using e
    by (metis append_take_drop_id append_Nil2 last_appendR takeWhile_dropWhile_id)
  have "hd (strip s) = last ?e" using e by (simp add: strip_def hd_rev)
  then show "\<not> is_space (hd (strip s))" using nl \<open>last ?e = last (rev ?d)\<close> by simp
qed

lemma length_join:
  "length (join sep xs) = sum_list (map length xs) + (length xs - 1) * length sep"
  by (induction sep xs rule: join.induct) auto

lemma join_Nil_iff_nonempty:
  "(\<forall>x\<in>set xs. x \<noteq> []) \<Longrightarrow> join sep xs = [] \<longleftrightarrow> xs = []"
  by (induction sep xs rule: join.induct) auto

lemma eq_clauses_spec:
  "eq_clauses field xs =
     map (\<lambda>c. field @ '' eq '' @ apo @ c @ apo)
       (map (\<lambda>c. upper_py (strip c)) (filter (\<lambda>c. \<not> blank c) xs))"
  by (simp add: eq_clauses_def strip_Nil_iff comp_def)

lemma eq_clauses_nonempty: "\<forall>x\<in>set (eq_clauses field xs). x \<noteq> []"
  by (auto simp: eq_clauses_def)

lemma filter_parts_eq:
  "filter_parts states start end cats ic =
     [incident_clause ic] @ or_group ''damageCategoryCode'' (surviving cats)
       @ or_group ''stateAbbreviation'' (surviving (case states of None \<Rightarrow> [] | Some ss \<Rightarrow> ss))
       @ (case start of Some (c # cs) \<Rightarrow> [''dateObligated ge '' @ apo @ (c # cs) @ apo] | _ \<Rightarrow> [])
       @ (case end of Some (c # cs) \<Rightarrow> [''dateObligated le '' @ apo @ (c # cs) @ apo] | _ \<Rightarrow> [])"
proof -
  have j: "\<And>f xs. join '' or '' (eq_clauses f xs) = [] \<longleftrightarrow> eq_clauses f xs = []"
    by (rule join_Nil_iff_nonempty[OF eq_clauses_nonempty])
  have sc: "or_group f (surviving xs) =
      (if eq_clauses f xs = [] then [] else [''('' @ join '' or '' (eq_clauses f xs) @ '')''])" for f xs
    unfolding or_group_def surviving_def eq_clauses_spec by simp
  have c: "(if xs \<noteq> [] then
          (if join '' or '' (eq_clauses f xs) \<noteq> []
           then p @ [''('' @ join '' or '' (eq_clauses f xs) @ '')''] else p)
        else p) = p @ or_group f (surviving xs)" for p f xs
  proof (cases "xs = []")
    case True
    then show ?thesis by (simp add: sc eq_clauses_def)
  next
    case False
    then show ?thesis unfolding j sc by simp
  qed
  have d: "(case st of Some (s # ss) \<Rightarrow>
            (if eq_clauses f (s # ss) \<noteq> []
                then p @ [''('' @ join '' or '' (eq_clauses f (s # ss)) @ '')''] else p)
        | _ \<Rightarrow> p) = p @ or_group f (surviving (case st of None \<Rightarrow> [] | Some ss \<Rightarrow> ss))" for p f st
  proof (cases st)
    case None
    then show ?thesis by (simp add: sc eq_clauses_def)
  next
    case (Some ss)
    then show ?thesis unfolding sc by (cases ss) (simp_all add: eq_clauses_def)
  qed
  have e: "(case x of Some (c # cs) \<Rightarrow> p @ [pre @ apo @ (c # cs) @ apo] | _ \<Rightarrow> p)
      = p @ (case x of Some (c # cs) \<Rightarrow> [pre @ apo @ (c # cs) @ apo] | _ \<Rightarrow> [])"
    for p pre and x :: "string option"
    by (simp split: option.split list.split)
  have i: "(if ic
        then [''(substringof('' @ apo @ ''Fire'' @ apo @ '',incidentType) or substringof(''
               @ apo @ ''Wildfire'' @ apo @ '',incidentType))'']
        else [''incidentType eq '' @ apo @ ''Fire'' @ apo]) = [incident_clause ic]"
    unfolding incident_clause_def by (cases ic) simp_all
  show ?thesis
    unfolding filter_parts_def i Let_def c d e by (simp only: append_assoc)
qed

lemma filter_parts_spec:
  "filter_parts states start end cats ic =
     [incident_clause ic] @ or_group ''damageCategoryCode'' (surviving cats)
       @ or_group ''stateAbbreviation'' (surviving (case states of None \<Rightarrow> [] | Some ss \<Rightarrow> ss))
       @ date_clause ''ge'' start @ date_clause ''le'' end"
  unfolding filter_parts_eq date_clause_def
  by (simp split: option.split list.split)

lemma surviving_Nil_iff: "surviving xs = [] \<longleftrightarrow> (\<forall>c\<in>set xs. blank c)"
  by (auto simp: surviving_def filter_empty_conv)

lemma is_space_upper_char: "is_space (upper_char c) = is_space c"
proof -
  have "of_char c < (256::nat)" by simp
  then show ?thesis
    unfolding is_space_def upper_char_def Let_def
    by (auto simp: of_char_of)
qed

lemma surviving_trimmed:
  assumes "c \<in> set (surviving xs)"
  shows "c \<noteq> [] \<and> \<not> is_space (hd c) \<and> \<not> is_space (last c)"
proof -
  from assms obtain e where e: "\<not> blank e" and c: "c = upper_py (strip e)"
    by (auto simp: surviving_def)
  from e have ne: "strip e \<noteq> []" by (simp add: strip_Nil_iff)
  from strip_ends[OF ne] ne show ?thesis
    by (simp add: c upper_py_def hd_map last_map is_space_upper_char)
qed

lemma upper_char_idem: "upper_char (upper_char c) = upper_char c"
proof -
  have "of_char c < (256::nat)" by simp
  then show ?thesis
    unfolding upper_char_def Let_def
    by (auto simp: of_char_of)
qed

lemma surviving_upper:
  assumes "c \<in> set (surviving xs)"
  shows "upper_py c = c"
  using assms by (auto simp: surviving_def upper_py_def upper_char_idem)

lemma or_group_long:
  assumes "g \<in> set (or_group f codes)"
  shows "2 < length g"
proof -
  from assms have ne: "codes \<noteq> []"
    and g: "g = ''('' @ join '' or '' (map (\<lambda>c. f @ '' eq '' @ apo @ c @ apo) codes) @ '')''"
    by (auto simp: or_group_def split: if_splits)
  have "join '' or '' (map (\<lambda>c. f @ '' eq '' @ apo @ c @ apo) codes) \<noteq> []"
    using ne by (subst join_Nil_iff_nonempty) auto
  then show ?thesis unfolding g by (simp add: Suc_lessI)
qed

lemma date_clause_long: "g \<in> set (date_clause rel d) \<Longrightarrow> 2 < length g"
  by (auto simp: date_clause_def split: option.splits list.splits)

lemma incident_clause_long: "2 < length (incident_clause ic)"
  by (simp add: incident_clause_def)

lemma parts_long: "g \<in> set (filter_parts states start end cats ic) \<Longrightarrow> 2 < length g"
  unfolding filter_parts_spec
  using or_group_long date_clause_long incident_clause_long by auto

lemma length_join_insert:
  assumes "a \<noteq> []"
  shows "length (join sep (a @ [x] @ b)) = length (join sep (a @ b)) + length x + length sep"
  using assms unfolding length_join by (cases a) auto

text \<open>
  Claim C8.  Blank entries (empty or white space only) of the category list and of the
  state list never reach the filter expression: the expression is built from the
  surviving entries alone, each of them trimmed and upper-cased; when every entry of a
  list is blank its clause is absent, and no part of the expression is an empty pair
  of parentheses.
\<close>

theorem build_filter_blank_entries:
  "filter_parts states start end cats ic =
     [incident_clause ic] @ or_group ''damageCategoryCode'' (surviving cats)
       @ or_group ''stateAbbreviation'' (surviving (case states of None \<Rightarrow> [] | Some ss \<Rightarrow> ss))
       @ date_clause ''ge'' start @ date_clause ''le'' end
   \<and> (\<forall>c \<in> set (surviving xs).
        c \<noteq> [] \<and> \<not> is_space (hd c) \<and> \<not> is_space (last c) \<and> upper_py c = c)
   \<and> ((\<forall>c \<in> set cats. blank c) \<longrightarrow>
        build_filter states start end cats ic = build_filter states start end [] ic)
   \<and> ((\<forall>s \<in> set sts. blank s) \<longrightarrow>
        build_filter (Some sts) start end cats ic = build_filter None start end cats ic)
   \<and> build_filter states start end cats ic
        = build_filter states start end (filter (\<lambda>c. \<not> blank c) cats) ic
   \<and> build_filter (Some sts) start end cats ic
        = build_filter (Some (filter (\<lambda>c. \<not> blank c) sts)) start end cats ic
   \<and> ''()'' \<notin> set (filter_parts states start end cats ic)"
proof -
  have s1: "surviving (filter (\<lambda>c. \<not> blank c) xs) = surviving xs" for xs
    by (simp add: surviving_def)
  have s2: "(\<forall>c \<in> set xs. blank c) \<Longrightarrow> surviving xs = []" for xs
    by (simp add: surviving_Nil_iff)
  have s3: "surviving [] = []" by (simp add: surviving_def)
  have p: "''()'' \<notin> set (filter_parts states start end cats ic)"
    using parts_long[of "''()''" states start "end" cats ic] by auto
  show ?thesis
    using surviving_trimmed[of _ xs] surviving_upper[of _ xs] p
    by (simp add: build_filter_def filter_parts_spec s1 s2 s3)
qed


lemma build_filter_cats_iff:
  "(build_filter states start end cats ic = build_filter states start end [] ic)
     = (\<forall>c \<in> set cats. blank c)"
proof (cases "surviving cats = []")
  case True
  then show ?thesis
    by (simp add: build_filter_def filter_parts_spec surviving_Nil_iff[symmetric] surviving_def)
next
  case False
  let ?b = "or_group ''stateAbbreviation'' (surviving (case states of None \<Rightarrow> [] | Some ss \<Rightarrow> ss))
       @ date_clause ''ge'' start @ date_clause ''le'' end"
  obtain g where g: "or_group ''damageCategoryCode'' (surviving cats) = [g]"
    using False by (simp add: or_group_def)
  have fp1: "filter_parts states start end cats ic = [incident_clause ic] @ [g] @ ?b"
    unfolding filter_parts_spec g by simp
  have fp0: "filter_parts states start end [] ic = [incident_clause ic] @ ?b"
    unfolding filter_parts_spec by (simp add: surviving_def or_group_def)
  have "length (build_filter states start end cats ic)
      = length (build_filter states start end [] ic) + length g + length '' and ''"
    unfolding build_filter_def fp1 fp0 by (rule length_join_insert) simp
  then have "build_filter states start end cats ic \<noteq> build_filter states start end [] ic"
    by auto
  then show ?thesis using False by (simp add: surviving_Nil_iff)
qed

text \<open>
  Claim C2 says that the category selection has no effect on the expression.  With the
  single category A selected the expression differs from the one for the empty
  selection.
\<close>

theorem category_selection_counterexample:
  "build_filter None None None [''A''] True \<noteq> build_filter None None None [] True"
  by (simp add: build_filter_cats_iff blank_def is_space_def)

text \<open>
  Claim C2, amended.  The category selection is threaded into the expression, by
  \<open>build_filter\<close> and by the run handler that passes the selection on: the expression
  equals the one for the empty selection exactly when every selected entry is blank,
  and otherwise its second conjunct is the disjunction over the surviving codes.
\<close>

theorem category_selection_threaded:
  "(build_filter states start end cats ic = build_filter states start end [] ic)
     = (\<forall>c \<in> set cats. blank c)
   \<and> (run_filter isoformat si sd ed cats ic = run_filter isoformat si sd ed [] ic)
     = (\<forall>c \<in> set cats. blank c)
   \<and> (\<not> (\<forall>c \<in> set cats. blank c) \<longrightarrow>
        filter_parts states start end cats ic ! 1
          = ''('' @ join '' or ''
              (map (\<lambda>c. ''damageCategoryCode eq '' @ apo @ c @ apo) (surviving cats)) @ '')'')"
  by (simp add: build_filter_cats_iff run_filter_def filter_parts_spec or_group_def
      surviving_Nil_iff)

lemma surviving_example: "surviving ['' b'', '' ''] = [''B'']"
  by code_simp

theorem category_selection_threaded_witness:
  "\<not> (\<forall>c \<in> set ['' b'', '' '']. blank c)
   \<and> build_filter None None None ['' b'', '' ''] False \<noteq> build_filter None None None [] False
   \<and> filter_parts None None None ['' b'', '' ''] False ! 1
        = ''(damageCategoryCode eq '' @ apo @ ''B'' @ apo @ '')''"
  using category_selection_threaded [of None None None "['' b'', '' '']" False id "[]" None None]
  by (simp add: surviving_example blank_def is_space_def)

theorem build_filter_blank_entries_witness:
  "blank '' '' \<and> blank []
   \<and> build_filter None None None ['' '', []] False = build_filter None None None [] False
   \<and> blank ''  ''
   \<and> build_filter (Some [''  '']) None None [] False = build_filter None None None [] False
   \<and> filter_parts (Some [''ca '', '' '']) (Some ''2020-01-01'') None ['' b'', '' ''] False
        = [''incidentType eq '' @ apo @ ''Fire'' @ apo,
           ''(damageCategoryCode eq '' @ apo @ ''B'' @ apo @ '')'',
           ''(stateAbbreviation eq '' @ apo @ ''CA'' @ apo @ '')'',
           ''dateObligated ge '' @ apo @ ''2020-01-01'' @ apo]"
proof -
  have b1: "\<forall>c \<in> set ['' '', []]. blank c" and b2: "\<forall>s \<in> set [''  '']. blank s"
    by (simp_all add: blank_def is_space_def)
  have e: "surviving [''ca '', '' ''] = [''CA'']" and e': "surviving ['' b'', '' ''] = [''B'']"
    by code_simp+
  from build_filter_blank_entries
         [where states = None and start = None and cats = "['' '', []]"
            and ic = False and sts = "[]" and xs = "[]"] b1
  have c1: "build_filter None None None ['' '', []] False = build_filter None None None [] False"
    by blast
  from build_filter_blank_entries
         [where states = None and start = None and cats = "[]"
            and ic = False and sts = "[''  '']" and xs = "[]"] b2
  have c2: "build_filter (Some [''  '']) None None [] False = build_filter None None None [] False"
    by blast
  from build_filter_blank_entries
         [where states = "Some [''ca '', '' '']" and start = "Some ''2020-01-01''"
            and cats = "['' b'', '' '']" and ic = False and sts = "[]"
            and xs = "[]"]
  have "filter_parts (Some [''ca '', '' '']) (Some ''2020-01-01'') None ['' b'', '' ''] False
      = [incident_clause False] @ or_group ''damageCategoryCode'' (surviving ['' b'', '' ''])
       @ or_group ''stateAbbreviation'' (surviving [''ca '', '' ''])
       @ date_clause ''ge'' (Some ''2020-01-01'') @ date_clause ''le'' None"
    by simp
  then have c3: "filter_parts (Some [''ca '', '' '']) (Some ''2020-01-01'') None ['' b'', '' ''] False
        = [''incidentType eq '' @ apo @ ''Fire'' @ apo,
           ''(damageCategoryCode eq '' @ apo @ ''B'' @ apo @ '')'',
           ''(stateAbbreviation eq '' @ apo @ ''CA'' @ apo @ '')'',
           ''dateObligated ge '' @ apo @ ''2020-01-01'' @ apo]"
    unfolding e e' by (simp add: or_group_def date_clause_def incident_clause_def)
  from b1 b2 c1 c2 c3 show ?thesis by simp
qed

section \<open>Properties of fetch_all\<close>

lemma fetch_page_http_error:
  assumes "status_code (get (requests st) (mk_url (skip st))) \<noteq> 200"
  shows "fetch_page mk_url get progress st =
     (st\<lparr>last_url := mk_url (skip st), requests := requests st + 1\<rparr>,
      Some (Raise (RuntimeError
        (''HTTP '' @ str_nat (status_code (get (requests st) (mk_url (skip st)))) @ '': ''
           @ take 500 (resp_text (get (requests st) (mk_url (skip st))))))))"
  using assms by (simp add: fetch_page_def Let_def)

lemma fetch_page_requests:
  "requests (fst (fetch_page mk_url get progress st)) = Suc (requests st)"
  by (simp add: fetch_page_def Let_def split: option.split json.split sum.split)

lemma fetch_page_last_url:
  "last_url (fst (fetch_page mk_url get progress st)) = mk_url (skip st)"
  by (simp add: fetch_page_def Let_def split: option.split json.split sum.split)

lemma fetch_page_running:
  assumes "fetch_page mk_url get progress st = (st', None)"
  shows "requests st' = Suc (requests st) \<and> skip st' = skip st + top
     \<and> status_code (get (requests st) (mk_url (skip st))) = 200"
  using assms
  by (auto simp: fetch_page_def Let_def split: option.splits json.splits sum.splits if_splits)

lemma fetch_loop_add:
  "fetch_loop (n + m) mk_url get progress st =
     (case fetch_loop n mk_url get progress st of
        (st', None) \<Rightarrow> fetch_loop m mk_url get progress st'
      | (st', Some out) \<Rightarrow> (st', Some out))"
proof (induction n arbitrary: st)
  case 0
  show ?case by simp
next
  case (Suc n)
  show ?case
    by (cases "fetch_page mk_url get progress st") (auto simp: Suc split: option.splits)
qed

lemma fetch_loop_running:
  assumes "fetch_loop n mk_url get progress st = (st', None)"
  shows "requests st' = requests st + n \<and> skip st' = skip st + n * top"
  using assms
proof (induction n arbitrary: st)
  case 0
  then show ?case by simp
next
  case (Suc n)
  obtain s1 r1 where p: "fetch_page mk_url get progress st = (s1, r1)" by force
  with Suc.prems have r1: "r1 = None" and l: "fetch_loop n mk_url get progress s1 = (st', None)"
    by (auto split: option.splits)
  from fetch_page_running[OF p[unfolded r1]] Suc.IH[OF l] show ?case by simp
qed

lemma fetch_loop_snoc:
  "fetch_loop n mk_url get progress st = (st', None)
   \<Longrightarrow> fetch_loop (n + m) mk_url get progress st = fetch_loop m mk_url get progress st'"
  by (simp add: fetch_loop_add)

lemma fetch_loop_one:
  "fetch_loop (Suc 0) mk_url get progress st =
     (case fetch_page mk_url get progress st of
        (st', None) \<Rightarrow> (st', None) | (st', Some out) \<Rightarrow> (st', Some out))"
  by simp

lemma fetch_loop_stops:
  "fetch_page mk_url get progress st = (st', Some out)
   \<Longrightarrow> fetch_loop (Suc k) mk_url get progress st = (st', Some out)"
  by simp

lemma fst_finish: "fst (finish from_records r) = fst r"
  by (cases r) (auto simp: finish_def split: option.splits ending.splits)

lemma snd_finish_None: "snd (finish from_records r) = None \<longleftrightarrow> snd r = None"
  by (cases r) (auto simp: finish_def split: option.splits ending.splits)

lemma finish_Raise: "finish from_records (st, Some (Raise e)) = (st, Some (Raised e))"
  by (simp add: finish_def)

lemma finish_Break:
  "finish from_records (st, Some Break) =
     (st, Some (case from_records (records st) of
                  Inl e \<Rightarrow> Raised e
                | Inr df \<Rightarrow> Returned df (last_url st) (or_zero (total_count st))))"
  by (simp add: finish_def)

lemma fetch_all_running:
  assumes "snd (fetch_all n from_records urlencode get filters select_fields progress) = None"
  obtains st where
    "fetch_loop n (page_url urlencode filters select_fields) get progress init_state = (st, None)"
    "fst (fetch_all n from_records urlencode get filters select_fields progress) = st"
    "requests st = n" "skip st = n * top"
proof -
  let ?mk = "page_url urlencode filters select_fields"
  obtain st r where st: "fetch_loop n ?mk get progress init_state = (st, r)" by force
  with assms have r: "r = None" by (simp add: fetch_all_def snd_finish_None)
  from fetch_loop_running[OF st[unfolded r]] have "requests st = n" "skip st = n * top"
    by (simp_all add: init_state_def)
  with st r that show ?thesis by (simp add: fetch_all_def fst_finish)
qed

text \<open>
  Claim C4.  When the loop is still going after \<open>n\<close> pages and the next request (the
  one with index \<open>n\<close>, at offset \<open>n * top\<close>) is answered with a status other than
  200, the call ends, whatever fuel is left, by raising a \<open>RuntimeError\<close> whose message
  holds the status code and the first 500 characters of the body.  Nothing is
  returned, and the failed request was the last one: there is no retry.
\<close>

theorem fetch_all_http_error:
  assumes "snd (fetch_all n from_records urlencode get filters select_fields progress) = None"
    and "status_code (get n (page_url urlencode filters select_fields (n * top))) \<noteq> 200"
  shows "snd (fetch_all (Suc n + k) from_records urlencode get filters select_fields progress)
      = Some (Raised (RuntimeError
          (''HTTP ''
             @ str_nat (status_code (get n (page_url urlencode filters select_fields (n * top))))
             @ '': ''
             @ take 500 (resp_text (get n (page_url urlencode filters select_fields (n * top)))))))
    \<and> requests (fst (fetch_all (Suc n + k) from_records urlencode get filters select_fields
                        progress)) = Suc n
    \<and> (\<forall>rows url c.
          snd (fetch_all (Suc n + k) from_records urlencode get filters select_fields progress)
          \<noteq> Some (Returned rows url c))"
proof -
  let ?mk = "page_url urlencode filters select_fields"
  from fetch_all_running[OF assms(1)] obtain st where
    st: "fetch_loop n ?mk get progress init_state = (st, None)"
    and rs: "requests st = n" "skip st = n * top" by metis
  have ne: "status_code (get (requests st) (?mk (skip st))) \<noteq> 200"
    using assms(2) by (simp add: rs)
  have "fetch_loop (n + Suc k) ?mk get progress init_state
      = fetch_loop (Suc k) ?mk get progress st"
    by (rule fetch_loop_snoc[OF st])
  then show ?thesis
    using fetch_page_http_error[of get st ?mk progress, OF ne]
    by (simp add: fetch_all_def rs finish_Raise)
qed

lemma page_payload_facts:
  "page_payload n c = JObj p \<Longrightarrow> page_rows p = replicate n sim_row \<and> metadata_count p = Inr (JNum c)"
  by (auto simp: page_payload_def page_items_def page_rows_def metadata_count_def)

lemma fetch_page_sim:
  assumes g: "get (requests st) (mk_url (skip st)) = ok_response (page_payload n c)"
    and t: "total_count st = JNull \<or> total_count st = JNum c"
  shows "fetch_page mk_url get progress st =
    (if n = 0
     then (st\<lparr>last_url := mk_url (skip st), requests := requests st + 1, total_count := JNum c\<rparr>,
           Some Break)
     else (st\<lparr>last_url := mk_url (skip st), requests := requests st + 1, total_count := JNum c,
              records := records st @ replicate n sim_row, skip := skip st + top,
              reported := reported st
                @ (if progress \<and> c \<noteq> 0 then [fraction (length (records st) + n) (max c 1)] else [])\<rparr>,
           if n < top
           then Some Break else None))"
proof -
  obtain p where p: "page_payload n c = JObj p" by (simp add: page_payload_def)
  note f = page_payload_facts[OF p]
  have r: "resp_json (get (requests st) (mk_url (skip st))) = Some (JObj p)"
    "status_code (get (requests st) (mk_url (skip st))) = 200"
    by (simp_all add: g ok_response_def p)
  from t show ?thesis
    by (auto simp: fetch_page_def Let_def r f)
qed

lemma find_data_key_Some:
  "find_data_key kvs = Some k \<Longrightarrow> \<exists>xs. (k, JArr xs) \<in> set kvs"
proof (induction kvs rule: find_data_key.induct)
  case 1
  then show ?case by simp
next
  case (2 k' v kvs)
  then show ?case by (cases v) (auto split: if_splits)
qed

lemma page_rows_distinct:
  assumes "distinct (map fst payload)" and "find_data_key payload = Some k"
  shows "\<exists>xs. map_of payload k = Some (JArr xs) \<and> page_rows payload = xs"
proof -
  from find_data_key_Some[OF assms(2)] obtain xs where "(k, JArr xs) \<in> set payload" by blast
  with assms(1) have "map_of payload k = Some (JArr xs)" by simp
  then show ?thesis by (simp add: page_rows_def assms(2))
qed

lemma find_data_key_None: "find_data_key kvs = None \<longleftrightarrow> (\<forall>v \<in> snd ` set kvs. \<not> is_list v)"
  by (induction kvs rule: find_data_key.induct) auto

lemma fetch_page_cong:
  "get (requests st) (mk_url (skip st)) = get' (requests st) (mk_url (skip st))
   \<Longrightarrow> fetch_page mk_url get progress st = fetch_page mk_url get' progress st"
  by (simp add: fetch_page_def)

lemma fetch_page_sim_pages:
  assumes "total_count st = JNull \<or> total_count st = JNum (of_nat (sum_list sizes))"
  shows "fetch_page mk_url (sim_pages sizes) progress st =
    (let n = (if requests st < length sizes then sizes ! requests st else 0);
         c = of_nat (sum_list sizes)
     in if n = 0
     then (st\<lparr>last_url := mk_url (skip st), requests := requests st + 1, total_count := JNum c\<rparr>,
           Some Break)
     else (st\<lparr>last_url := mk_url (skip st), requests := requests st + 1, total_count := JNum c,
              records := records st @ replicate n sim_row, skip := skip st + top,
              reported := reported st
                @ (if progress \<and> c \<noteq> 0 then [fraction (length (records st) + n) (max c 1)] else [])\<rparr>,
           if n < top
           then Some Break else None))"
  unfolding Let_def
  by (rule fetch_page_sim[OF _ assms]) (simp add: sim_pages_def)

lemma sim_first_page:
  "fetch_loop 1 mk_url (sim_pages [1000, 1000, 400]) progress init_state =
     (\<lparr>records = replicate 1000 sim_row, skip = 1000, total_count = JNum 2400,
       last_url = mk_url 0,
       reported = (if progress then [fraction 1000 2400] else []), requests = 1\<rparr>, None)"
  by (simp add: fetch_page_sim_pages init_state_def top_def)

lemma sim_second_page:
  "fetch_loop 2 mk_url (sim_pages [1000, 1000, 400]) progress init_state =
     (\<lparr>records = replicate 1000 sim_row @ replicate 1000 sim_row, skip = 2000,
       total_count = JNum 2400, last_url = mk_url 1000,
       reported = (if progress then [fraction 1000 2400, fraction 2000 2400] else []),
       requests = 2\<rparr>, None)"
proof -
  have "fetch_loop (1 + Suc 0) mk_url (sim_pages [1000, 1000, 400]) progress init_state =
     (\<lparr>records = replicate 1000 sim_row @ replicate 1000 sim_row, skip = 2000,
       total_count = JNum 2400, last_url = mk_url 1000,
       reported = (if progress then [fraction 1000 2400, fraction 2000 2400] else []),
       requests = 2\<rparr>, None)"
    unfolding fetch_loop_snoc[OF sim_first_page] fetch_loop_one
    by (simp add: fetch_page_sim_pages top_def)
  then show ?thesis by (simp add: numeral_2_eq_2)
qed

lemma sim_third_page:
  "fetch_loop (3 + k) mk_url (sim_pages [1000, 1000, 400]) progress init_state =
     (\<lparr>records = replicate 1000 sim_row @ replicate 1000 sim_row @ replicate 400 sim_row,
       skip = 3000, total_count = JNum 2400, last_url = mk_url 2000,
       reported = (if progress then [fraction 1000 2400, fraction 2000 2400, fraction 2400 2400]
                   else []),
       requests = 3\<rparr>,
      Some Break)"
proof -
  have "fetch_page mk_url (sim_pages [1000, 1000, 400]) progress
     \<lparr>records = replicate 1000 sim_row @ replicate 1000 sim_row, skip = 2000,
       total_count = JNum 2400, last_url = mk_url 1000,
       reported = (if progress then [fraction 1000 2400, fraction 2000 2400] else []),
       requests = 2\<rparr> =
     (\<lparr>records = replicate 1000 sim_row @ replicate 1000 sim_row @ replicate 400 sim_row,
       skip = 3000, total_count = JNum 2400, last_url = mk_url 2000,
       reported = (if progress then [fraction 1000 2400, fraction 2000 2400, fraction 2400 2400]
                   else []),
       requests = 3\<rparr>,
      Some Break)"
    by (simp add: fetch_page_sim_pages top_def)
  from fetch_loop_stops[OF this, of k]
  have "fetch_loop (2 + Suc k) mk_url (sim_pages [1000, 1000, 400]) progress init_state =
     (\<lparr>records = replicate 1000 sim_row @ replicate 1000 sim_row @ replicate 400 sim_row,
       skip = 3000, total_count = JNum 2400, last_url = mk_url 2000,
       reported = (if progress then [fraction 1000 2400, fraction 2000 2400, fraction 2400 2400]
                   else []),
       requests = 3\<rparr>,
      Some Break)"
    unfolding fetch_loop_snoc[OF sim_second_page] .
  moreover have "2 + Suc k = 3 + k" by simp
  ultimately show ?thesis by (simp only:)
qed

lemma max_count_pos: "max_count tc = Inr m \<Longrightarrow> 1 \<le> m"
  by (cases tc) auto

lemma fraction_mono: "0 < m \<Longrightarrow> a \<le> b \<Longrightarrow> fraction a m \<le> fraction b m"
  by (auto simp: fraction_def divide_right_mono min.coboundedI2)

lemma progress_inv_grow:
  assumes "progress_inv st" and "reported st' = reported st" and "total_count st = total_count st' \<or> reported st = []"
    and "length (records st) \<le> length (records st')"
  shows "progress_inv st'"
proof (cases "reported st = []")
  case True
  then show ?thesis using assms(2) by (simp add: progress_inv_def)
next
  case False
  with assms(1) obtain m where m: "truthy (total_count st)" "max_count (total_count st) = Inr m"
    "sorted (reported st)" "\<forall>f \<in> set (reported st). f \<le> fraction (length (records st)) m"
    by (auto simp: progress_inv_def)
  from max_count_pos[OF m(2)] have "0 < m" by simp
  from fraction_mono[OF this assms(4)] m(4)
  have "\<forall>f \<in> set (reported st). f \<le> fraction (length (records st')) m" by fastforce
  with m False assms show ?thesis by (auto simp: progress_inv_def)
qed

lemma progress_inv_report:
  assumes "progress_inv st" and "total_count st = tc \<or> reported st = []"
    and "truthy tc" and "max_count tc = Inr m"
    and "length (records st) \<le> n"
    and "total_count st' = tc" and "length (records st') = n"
    and "reported st' = reported st @ [fraction n m]"
  shows "progress_inv st'"
proof -
  from max_count_pos[OF assms(4)] have mp: "0 < m" by simp
  have "\<forall>f \<in> set (reported st). f \<le> fraction n m"
  proof (cases "reported st = []")
    case True
    then show ?thesis by simp
  next
    case False
    with assms(1,2,4) have "\<forall>f \<in> set (reported st). f \<le> fraction (length (records st)) m"
      by (auto simp: progress_inv_def)
    with fraction_mono[OF mp assms(5)] show ?thesis by fastforce
  qed
  moreover have "sorted (reported st)" using assms(1) by (auto simp: progress_inv_def)
  ultimately show ?thesis using assms(3,4,6,7,8)
    by (auto simp: progress_inv_def sorted_append)
qed

lemma fetch_page_shape:
  "(total_count (fst (fetch_page mk_url get progress st)) = total_count st \<or> total_count st = JNull)
   \<and> length (records st) \<le> length (records (fst (fetch_page mk_url get progress st)))
   \<and> (reported (fst (fetch_page mk_url get progress st)) = reported st \<or>
        (progress \<and> truthy (total_count (fst (fetch_page mk_url get progress st))) \<and>
         (\<exists>m. max_count (total_count (fst (fetch_page mk_url get progress st))) = Inr m \<and>
              reported (fst (fetch_page mk_url get progress st))
                = reported st @ [fraction (length (records (fst (fetch_page mk_url get progress st)))) m])))"
  by (auto simp: fetch_page_def Let_def map_sum_def
           split: option.splits json.splits sum.splits if_splits)

lemma fetch_page_inv:
  assumes "progress_inv st"
  shows "progress_inv (fst (fetch_page mk_url get progress st))"
proof -
  let ?st' = "fst (fetch_page mk_url get progress st)"
  note sh = fetch_page_shape[of mk_url get progress st]
  have tc: "total_count st = total_count ?st' \<or> reported st = []"
  proof (cases "reported st = []")
    case False
    with assms have "truthy (total_count st)" by (auto simp: progress_inv_def)
    then have "total_count st \<noteq> JNull" by auto
    with sh show ?thesis by auto
  qed simp
  from sh consider "reported ?st' = reported st"
    | m where "truthy (total_count ?st')" "max_count (total_count ?st') = Inr m"
        "reported ?st' = reported st @ [fraction (length (records ?st')) m]"
    by blast
  then show ?thesis
  proof cases
    case 1
    from progress_inv_grow[OF assms 1 tc] sh show ?thesis by blast
  next
    case 2
    show ?thesis
      by (rule progress_inv_report[OF assms tc 2(1,2) _ refl refl 2(3)]) (use sh in blast)
  qed
qed

lemma fetch_loop_inv:
  "progress_inv st \<Longrightarrow> progress_inv (fst (fetch_loop n mk_url get progress st))"
proof (induction n arbitrary: st)
  case 0
  then show ?case by simp
next
  case (Suc n)
  obtain s1 r1 where p: "fetch_page mk_url get progress st = (s1, r1)" by force
  from fetch_page_inv[OF Suc.prems, of mk_url get progress] p have "progress_inv s1" by simp
  with Suc.IH[of s1] p show ?case by (cases r1) auto
qed

lemma fetch_page_appends:
  "\<exists>more. reported (fst (fetch_page mk_url get progress st)) = reported st @ more"
  using fetch_page_shape[of mk_url get progress st] by auto

lemma fetch_loop_appends:
  "\<exists>more. reported (fst (fetch_loop n mk_url get progress st)) = reported st @ more"
proof (induction n arbitrary: st)
  case 0
  then show ?case by simp
next
  case (Suc n)
  obtain s1 r1 where p: "fetch_page mk_url get progress st = (s1, r1)" by force
  from fetch_page_appends[of mk_url get progress st] p
  obtain m1 where m1: "reported s1 = reported st @ m1" by auto
  from Suc.IH[of s1] obtain m2 where
    "reported (fst (fetch_loop n mk_url get progress s1)) = reported s1 @ m2" by blast
  with m1 p show ?case by (cases r1) auto
qed

lemma fetch_loop_prefix:
  "\<exists>more. reported (fst (fetch_loop (n + k) mk_url get progress st))
            = reported (fst (fetch_loop n mk_url get progress st)) @ more"
proof (cases "fetch_loop n mk_url get progress st")
  case (Pair s1 r1)
  show ?thesis
  proof (cases r1)
    case None
    with Pair fetch_loop_appends[of k mk_url get progress s1] show ?thesis
      by (simp add: fetch_loop_add)
  next
    case (Some a)
    with Pair show ?thesis by (simp add: fetch_loop_add)
  qed
qed

text \<open>
  Claim C9.  However long the loop has run, the fractions reported so far are in
  non-decreasing order, and running longer only adds to them.  A pass of the loop
  reports nothing or exactly one fraction \<open>min 1 (n / m)\<close>, where \<open>n\<close> is the number
  of rows accumulated and \<open>m\<close> is \<open>max(total_count, 1)\<close>, and it reports only with an
  observer and a total count that was obtained (is truthy); while no such count is
  there, nothing has been reported.
\<close>

theorem progress_monotone:
  "sorted (reported (fst (fetch_all fuel from_records urlencode get filters select_fields progress)))
   \<and> (\<exists>more. reported (fst (fetch_all (fuel + k) from_records urlencode get filters
                                select_fields progress))
         = reported (fst (fetch_all fuel from_records urlencode get filters select_fields
                            progress)) @ more)
   \<and> (\<not> truthy (total_count (fst (fetch_all fuel from_records urlencode get filters
                                    select_fields progress)))
        \<longrightarrow> reported (fst (fetch_all fuel from_records urlencode get filters select_fields
                              progress)) = [])
   \<and> (reported (fst (fetch_page mk_url get progress st)) = reported st \<or>
        (progress \<and> truthy (total_count (fst (fetch_page mk_url get progress st))) \<and>
         (\<exists>m. max_count (total_count (fst (fetch_page mk_url get progress st))) = Inr m \<and>
              reported (fst (fetch_page mk_url get progress st))
                = reported st
                  @ [min 1 (of_nat (length (records (fst (fetch_page mk_url get progress st)))) / m)])))
   \<and> max_count (JNum c) = Inr (max c 1)"
proof -
  have i0: "progress_inv init_state" by (simp add: progress_inv_def init_state_def)
  note inv = fetch_loop_inv[OF i0, of fuel "page_url urlencode filters select_fields" get progress]
  from inv have a: "sorted (reported (fst (fetch_all fuel from_records urlencode get filters
      select_fields progress)))"
    by (auto simp: progress_inv_def fetch_all_def fst_finish)
  from inv have b: "\<not> truthy (total_count (fst (fetch_all fuel from_records urlencode get filters
        select_fields progress)))
        \<longrightarrow> reported (fst (fetch_all fuel from_records urlencode get filters select_fields
              progress)) = []"
    by (auto simp: progress_inv_def fetch_all_def fst_finish)
  from a b fetch_loop_prefix[of fuel k "page_url urlencode filters select_fields" get progress init_state]
    fetch_page_shape[of mk_url get progress st]
  show ?thesis
    unfolding fetch_all_def fraction_def fst_finish by simp
qed

lemma sim_empty_run:
  "fetch_loop 1 mk_url (sim_pages []) progress init_state =
     (\<lparr>records = [], skip = 0, total_count = JNum 0, last_url = mk_url 0,
       reported = [], requests = 1\<rparr>, Some Break)"
  by (simp add: fetch_page_sim_pages init_state_def)

theorem progress_monotone_witness:
  "\<not> truthy (total_count (fst (fetch_all 1 from_records_objects urlencode_plain (sim_pages [])
                                  [] None True)))
   \<and> reported (fst (fetch_all 1 from_records_objects urlencode_plain (sim_pages []) [] None True))
       = []
   \<and> reported (fst (fetch_all 3 from_records_objects urlencode_plain
                       (sim_pages [1000, 1000, 400]) [] None True))
       = [5 / 12, 5 / 6, 1]
   \<and> sorted (reported (fst (fetch_all 3 from_records_objects urlencode_plain
                               (sim_pages [1000, 1000, 400]) [] None True)))"
proof -
  have a: "\<not> truthy (total_count (fst (fetch_all 1 from_records_objects urlencode_plain
      (sim_pages []) [] None True)))"
    unfolding fetch_all_def sim_empty_run fst_finish by simp
  have b: "reported (fst (fetch_all 3 from_records_objects urlencode_plain
      (sim_pages [1000, 1000, 400]) [] None True))
       = [5 / 12, 5 / 6, 1]"
    using sim_third_page[of 0 "page_url urlencode_plain [] None" True]
    by (simp add: fetch_all_def fraction_def fst_finish)
  from progress_monotone [of 1 from_records_objects urlencode_plain "sim_pages []" "[]" None True]
       progress_monotone [of 3 from_records_objects urlencode_plain
                            "sim_pages [1000, 1000, 400]" "[]" None True]
       a b
  show ?thesis by simp
qed

lemma str_nat_503: "str_nat 503 = ''503''"
  by code_simp

theorem fetch_all_http_error_witness:
  "snd (fetch_all 1 from_records_objects urlencode_plain (sim_failing 1 [1000, 1000, 400])
          [] None True) = None
   \<and> status_code (sim_failing 1 [1000, 1000, 400] 1 (page_url urlencode_plain [] None (1 * top)))
       \<noteq> 200
   \<and> snd (fetch_all 2 from_records_objects urlencode_plain (sim_failing 1 [1000, 1000, 400])
            [] None True)
       = Some (Raised (RuntimeError ''HTTP 503: Service Unavailable''))
   \<and> requests (fst (fetch_all 2 from_records_objects urlencode_plain
                       (sim_failing 1 [1000, 1000, 400]) [] None True))
       = 2"
proof -
  let ?mk = "page_url urlencode_plain [] None"
  have "fetch_loop (Suc 0) ?mk (sim_failing 1 [1000, 1000, 400]) True init_state
      = fetch_loop (Suc 0) ?mk (sim_pages [1000, 1000, 400]) True init_state"
    unfolding fetch_loop_one
    by (subst fetch_page_cong[of "sim_failing 1 [1000, 1000, 400]" _ _ "sim_pages [1000, 1000, 400]"])
       (simp_all add: sim_failing_def init_state_def)
  then have a: "snd (fetch_all 1 from_records_objects urlencode_plain
      (sim_failing 1 [1000, 1000, 400]) [] None True) = None"
    using sim_first_page[of ?mk True] by (simp add: fetch_all_def snd_finish_None)
  have b: "status_code (sim_failing 1 [1000, 1000, 400] 1 (?mk (1 * top))) \<noteq> 200"
    by (simp add: sim_failing_def)
  have e: "sim_failing 1 [1000, 1000, 400] 1 u
      = \<lparr>status_code = 503, resp_text = ''Service Unavailable'', resp_json = None\<rparr>" for u
    by (simp add: sim_failing_def)
  have n: "Suc 1 + 0 = 2" by simp
  from fetch_all_http_error [OF a b, of 0]
  show ?thesis using a b unfolding e n by (simp add: str_nat_503)
qed

lemma fetch_page_no_list:
  assumes "status_code (get (requests st) (mk_url (skip st))) = 200"
    and "resp_json (get (requests st) (mk_url (skip st))) = Some (JObj payload)"
    and "find_data_key payload = None"
  shows "fetch_page mk_url get progress st =
     (case (if total_count st = JNull then metadata_count payload else Inr (total_count st)) of
        Inl e \<Rightarrow> (st\<lparr>last_url := mk_url (skip st), requests := requests st + 1\<rparr>,
                  Some (Raise e))
      | Inr tc \<Rightarrow> (st\<lparr>last_url := mk_url (skip st), requests := requests st + 1,
                     total_count := tc\<rparr>, Some Break))"
  using assms by (simp add: fetch_page_def Let_def page_rows_def split: sum.split)

lemma metadata_count_error:
  "metadata_count payload = Inl e
   \<Longrightarrow> e = AttributeError \<and> (\<exists>v. map_of payload ''metadata'' = Some v \<and> \<not> is_object v)"
  by (auto simp: metadata_count_def split: option.splits json.splits)

lemma from_records_objects_sim:
  assumes "rs \<noteq> []" and "\<forall>r \<in> set rs. r = sim_row"
  shows "from_records_objects rs = Inr rs"
proof -
  from assms obtain r where "r \<in> set rs" "r \<noteq> JObj []"
    by (cases rs) (auto simp: sim_row_def)
  moreover have "\<forall>r \<in> set rs. is_object r" using assms(2) by (auto simp: sim_row_def)
  ultimately show ?thesis by (auto simp: from_records_objects_def list_all_iff)
qed

text \<open>
  Claim C1, amended.  When the loop is still going after \<open>n\<close> pages (\<open>n\<close> may be 0)
  and the next response has status 200 and a payload that is an object without a
  list-valued field, the page is taken to have no rows.  No further request is made,
  nothing is added to the rows or to the progress reports, and the call ends as it
  does for an exhausted source: it returns the frame of the rows accumulated on the
  earlier pages (of no rows at all on the first page) with the URL of this request
  and the total count, or 0 for a falsy count.  The count is the one obtained on an
  earlier page or else the one read from the metadata of this payload.  The call
  fails on such a payload only when the count is still to be read and the metadata
  field is there and is not an object, with an \<open>AttributeError\<close>, or when building
  the frame fails.
\<close>

theorem fetch_all_no_list_field:
  assumes "snd (fetch_all n from_records urlencode get filters select_fields progress) = None"
    and "status_code (get n (page_url urlencode filters select_fields (n * top))) = 200"
    and "resp_json (get n (page_url urlencode filters select_fields (n * top)))
           = Some (JObj payload)"
    and "\<forall>v \<in> snd ` set payload. \<not> is_list v"
  shows "requests (fst (fetch_all (Suc n + k) from_records urlencode get filters select_fields
                          progress)) = Suc n
    \<and> records (fst (fetch_all (Suc n + k) from_records urlencode get filters select_fields
                       progress))
        = records (fst (fetch_all n from_records urlencode get filters select_fields progress))
    \<and> reported (fst (fetch_all (Suc n + k) from_records urlencode get filters select_fields
                        progress))
        = reported (fst (fetch_all n from_records urlencode get filters select_fields progress))
    \<and> snd (fetch_all (Suc n + k) from_records urlencode get filters select_fields progress)
        = Some
           (case (if total_count (fst (fetch_all n from_records urlencode get filters
                                         select_fields progress)) = JNull
                  then metadata_count payload
                  else Inr (total_count (fst (fetch_all n from_records urlencode get filters
                                                select_fields progress)))) of
              Inl e \<Rightarrow> Raised e
            | Inr tc \<Rightarrow>
               (case from_records
                       (records (fst (fetch_all n from_records urlencode get filters
                                        select_fields progress))) of
                  Inl e \<Rightarrow> Raised e
                | Inr df \<Rightarrow>
                    Returned df (page_url urlencode filters select_fields (n * top))
                      (or_zero tc)))
    \<and> (\<forall>e. metadata_count payload = Inl e \<longrightarrow>
          e = AttributeError \<and> (\<exists>v. map_of payload ''metadata'' = Some v \<and> \<not> is_object v))
    \<and> records (fst (fetch_all 0 from_records urlencode get filters select_fields progress)) = []
    \<and> total_count (fst (fetch_all 0 from_records urlencode get filters select_fields progress))
        = JNull"
proof -
  let ?mk = "page_url urlencode filters select_fields"
  from fetch_all_running[OF assms(1)] obtain st where
    st: "fetch_loop n ?mk get progress init_state = (st, None)"
    and fs: "fst (fetch_all n from_records urlencode get filters select_fields progress) = st"
    and rs: "requests st = n" "skip st = n * top" by metis
  have k: "find_data_key payload = None" using assms(4) by (simp add: find_data_key_None)
  have p: "fetch_page ?mk get progress st =
     (case (if total_count st = JNull then metadata_count payload else Inr (total_count st)) of
        Inl e \<Rightarrow> (st\<lparr>last_url := ?mk (skip st), requests := requests st + 1\<rparr>,
                  Some (Raise e))
      | Inr tc \<Rightarrow> (st\<lparr>last_url := ?mk (skip st), requests := requests st + 1,
                     total_count := tc\<rparr>, Some Break))"
    by (rule fetch_page_no_list) (use assms(2,3) k rs in simp_all)
  have l: "fetch_loop (n + Suc k) ?mk get progress init_state
      = fetch_loop (Suc k) ?mk get progress st"
    by (rule fetch_loop_snoc[OF st])
  have m: "\<forall>e. metadata_count payload = Inl e \<longrightarrow>
          e = AttributeError \<and> (\<exists>v. map_of payload ''metadata'' = Some v \<and> \<not> is_object v)"
    using metadata_count_error by blast
  have z: "fst (fetch_all 0 from_records urlencode get filters select_fields progress) = init_state"
    by (simp add: fetch_all_def fst_finish)
  have "fetch_all (Suc n + k) from_records urlencode get filters select_fields progress
      = finish from_records (fetch_page ?mk get progress st)"
    using l by (simp add: fetch_all_def p split: sum.split)
  then show ?thesis
    unfolding fs z using m
    by (simp add: p rs finish_def init_state_def split: sum.split)
qed

lemma no_list_example:
  "fetch_loop (Suc 0) mk_url
     (const_source (ok_response
        (JObj [(''metadata'', JObj [(''count'', JNum 5)]), (''message'', JStr ''none'')])))
     progress init_state
   = (\<lparr>records = [], skip = 0, total_count = JNum 5, last_url = mk_url 0, reported = [],
       requests = 1\<rparr>, Some Break)"
  unfolding fetch_loop_one
  by (subst fetch_page_no_list[where payload =
        "[(''metadata'', JObj [(''count'', JNum 5)]), (''message'', JStr ''none'')]"])
     (simp_all add: const_source_def ok_response_def init_state_def metadata_count_def)

text \<open>
  Claim C1 says that a successful payload without a list-valued field makes the call
  fail.  For the payload \<open>{"metadata": {"count": 5}, "message": "none"}\<close> the call
  returns an empty frame with the count 5.
\<close>

theorem no_list_field_counterexample:
  "snd (fetch_all 1 from_records_objects urlencode_plain
         (const_source (ok_response
            (JObj [(''metadata'', JObj [(''count'', JNum 5)]), (''message'', JStr ''none'')])))
         [] None False)
     = Some (Returned [] (page_url urlencode_plain [] None 0) (JNum 5))"
  unfolding fetch_all_def One_nat_def no_list_example
  by (simp add: finish_def from_records_objects_def or_zero_def)

lemma no_list_later_first:
  "fetch_loop 1 mk_url sim_no_list_later progress init_state =
     (\<lparr>records = replicate 1000 sim_row, skip = 1000, total_count = JNum 2400,
       last_url = mk_url 0,
       reported = (if progress then [fraction 1000 2400] else []), requests = 1\<rparr>, None)"
proof -
  have "fetch_page mk_url sim_no_list_later progress init_state
      = fetch_page mk_url (sim_pages [1000, 1000, 400]) progress init_state"
    by (rule fetch_page_cong)
       (simp add: sim_no_list_later_def sim_pages_def init_state_def)
  then show ?thesis using sim_first_page[of mk_url progress] by simp
qed

theorem fetch_all_no_list_field_witness:
  "snd (fetch_all 1 from_records_objects urlencode_plain sim_no_list_later [] None True) = None
   \<and> status_code (sim_no_list_later 1 (page_url urlencode_plain [] None (1 * top))) = 200
   \<and> \<not> is_list (JObj [(''count'', JNum 5)]) \<and> \<not> is_list (JStr ''none'')
   \<and> requests (fst (fetch_all 2 from_records_objects urlencode_plain sim_no_list_later
                       [] None True)) = 2
   \<and> snd (fetch_all 2 from_records_objects urlencode_plain sim_no_list_later [] None True)
       = Some (Returned (replicate 1000 sim_row) (page_url urlencode_plain [] None 1000)
                 (JNum 2400))"
proof -
  let ?mk = "page_url urlencode_plain [] None"
  let ?all = "\<lambda>n. fetch_all n from_records_objects urlencode_plain sim_no_list_later [] None True"
  have f1: "?all 1 = (\<lparr>records = replicate 1000 sim_row, skip = 1000, total_count = JNum 2400,
       last_url = ?mk 0, reported = [fraction 1000 2400], requests = 1\<rparr>, None)"
    unfolding fetch_all_def no_list_later_first by (simp add: finish_def)
  have h1: "snd (?all 1) = None" unfolding f1 by simp
  have h2: "status_code (sim_no_list_later 1 (?mk (1 * top))) = 200"
    and h3: "resp_json (sim_no_list_later 1 (?mk (1 * top))) = Some (JObj no_list_payload)"
    by (simp_all add: sim_no_list_later_def ok_response_def)
  have h4: "\<forall>v \<in> snd ` set no_list_payload. \<not> is_list v" by (simp add: no_list_payload_def)
  have fr: "from_records_objects (replicate 1000 sim_row) = Inr (replicate 1000 sim_row)"
    by (rule from_records_objects_sim) auto
  have n: "Suc 1 + 0 = 2" by simp
  from fetch_all_no_list_field [OF h1 h2 h3 h4, of 0]
  have "requests (fst (?all 2)) = 2"
    and "snd (?all 2) = Some (Returned (replicate 1000 sim_row) (?mk (1 * top)) (JNum 2400))"
    unfolding n f1 by (simp_all add: fr or_zero_def)
  with h1 h2 show ?thesis by (simp add: top_def)
qed

lemma page_items_facts:
  "page_rows (page_items n c) = replicate n sim_row"
  "metadata_count (page_items n c) = Inr (JNum c)"
  by (simp_all add: page_items_def page_rows_def metadata_count_def)

lemma digits_nat_snoc: "digits_nat (s @ [c]) = 10 * digits_nat s + (of_char c - 48)"
  by (simp add: digits_nat_def)

lemma digits_nat_str_nat: "digits_nat (str_nat n) = n"
proof (induction n rule: str_nat.induct)
  case (1 n)
  show ?case
  proof (cases "n < 10")
    case True
    then show ?thesis by (subst str_nat.simps) (simp add: digits_nat_def of_char_of)
  next
    case False
    have m: "of_char (char_of (48 + n mod 10) :: char) = 48 + n mod 10"
      by (simp add: of_char_of)
    from False 1 have "digits_nat (str_nat (n div 10)) = n div 10" by simp
    with False show ?thesis
      by (subst str_nat.simps) (simp add: digits_nat_snoc m)
  qed
qed

lemma str_nat_inj: "str_nat a = str_nat b \<Longrightarrow> a = b"
  by (metis digits_nat_str_nat)

lemma str_nat_top: "str_nat top = ''1000''"
  unfolding top_def by code_simp

lemma page_url_params:
  "page_url urlencode filters select_fields sk =
     API_BASE @ ''?'' @
       urlencode ([(''$filter'', filters), (''$top'', ''1000''), (''$skip'', str_nat sk),
                   (''$format'', ''json''), (''$count'', ''true'')]
                  @ (case select_fields of
                       Some (f # fs) \<Rightarrow> [(''$select'', join '','' (f # fs))]
                     | _ \<Rightarrow> []))"
  by (simp add: page_url_def base_params_def str_nat_top split: option.split list.split)

lemma page_url_plain_inj:
  assumes "page_url urlencode_plain filters select_fields a
         = page_url urlencode_plain filters select_fields b"
  shows "a = b"
proof -
  from assms have "str_nat a = str_nat b"
    unfolding page_url_params urlencode_plain_def
    by (simp split: option.splits list.splits)
  then show ?thesis by (rule str_nat_inj)
qed

lemma find_snoc:
  "find P (xs @ [y]) = (case find P xs of None \<Rightarrow> (if P y then Some y else None) | Some x \<Rightarrow> Some x)"
  by (induction xs) auto

lemma find_index_upt: "find (\<lambda>k. i = k) [0..<m] = (if i < m then Some i else None)"
  by (induction m) (auto simp: find_snoc split: option.splits)

lemma sim_by_offset_at:
  assumes "k < length sizes"
  shows "sim_by_offset filters select_fields sizes i
           (page_url urlencode_plain filters select_fields (k * top))
         = ok_response (page_payload (sizes ! k) (of_nat (sum_list sizes)))"
proof -
  have "(\<lambda>j. page_url urlencode_plain filters select_fields (k * top)
             = page_url urlencode_plain filters select_fields (j * top)) = (\<lambda>j. k = j)"
    by (rule ext) (auto simp: top_def dest: page_url_plain_inj)
  then show ?thesis using assms by (simp add: sim_by_offset_def find_index_upt)
qed

lemma fetch_page_ok:
  assumes "status_code (get (requests st) (mk_url (skip st))) = 200"
    and "resp_json (get (requests st) (mk_url (skip st))) = Some (JObj payload)"
    and "(if total_count st = JNull then metadata_count payload else Inr (total_count st)) = Inr tc"
    and "progress \<and> truthy tc \<longrightarrow> max_count tc \<noteq> Inl TypeError"
  shows "snd (fetch_page mk_url get progress st)
           = (if length (page_rows payload) < top then Some Break else None)
    \<and> records (fst (fetch_page mk_url get progress st)) = records st @ page_rows payload
    \<and> total_count (fst (fetch_page mk_url get progress st)) = tc
    \<and> requests (fst (fetch_page mk_url get progress st)) = Suc (requests st)
    \<and> last_url (fst (fetch_page mk_url get progress st)) = mk_url (skip st)
    \<and> skip (fst (fetch_page mk_url get progress st))
        = (if page_rows payload = [] then skip st else skip st + top)"
proof (cases "max_count tc")
  case (Inl e)
  then have "max_count tc = Inl TypeError" by (cases tc) auto
  with assms show ?thesis
    by (auto simp: fetch_page_def Let_def top_def)
next
  case (Inr m)
  with assms show ?thesis
    by (auto simp: fetch_page_def Let_def top_def)
qed

lemma count_after_keeps:
  "count_after p i = Inr t \<Longrightarrow> t \<noteq> JNull \<Longrightarrow> count_after p (i + d) = Inr t"
  by (induction d) auto

lemma count_after_defined:
  "count_after p (i + d) = Inr tc \<Longrightarrow> \<exists>t. count_after p i = Inr t"
  by (induction d arbitrary: tc) (auto split: sum.splits)

lemma count_after_cases:
  assumes "count_after p n = Inr tc" and "i \<le> n"
  shows "count_after p i = Inr JNull \<or> count_after p i = Inr tc"
proof -
  from assms(2) obtain d where n: "n = i + d" by (auto simp: le_iff_add)
  from count_after_defined[OF assms(1)[unfolded n]] obtain t where t: "count_after p i = Inr t"
    by blast
  show ?thesis
  proof (cases "t = JNull")
    case True
    with t show ?thesis by simp
  next
    case False
    from count_after_keeps[OF t False, of d] assms(1) n have "t = tc" by simp
    with t show ?thesis by simp
  qed
qed

lemma run_full_pages:
  assumes pages: "\<forall>i<N. status_code (get i (mk_url (i * top))) = 200
                  \<and> resp_json (get i (mk_url (i * top))) = Some (JObj (p i))
                  \<and> top \<le> length (page_rows (p i))"
    and cnt: "count_after p N = Inr tc"
    and ty: "progress \<and> truthy tc \<longrightarrow> max_count tc \<noteq> Inl TypeError"
    and "n \<le> N"
  shows "\<exists>st. fetch_loop n mk_url get progress init_state = (st, None)
      \<and> records st = concat (map (\<lambda>i. page_rows (p i)) [0..<n])
      \<and> skip st = n * top \<and> requests st = n
      \<and> count_after p n = Inr (total_count st)"
  using \<open>n \<le> N\<close>
proof (induction n)
  case 0
  show ?case by (simp add: init_state_def)
next
  case (Suc n)
  then obtain st where st: "fetch_loop n mk_url get progress init_state = (st, None)"
    and r: "records st = concat (map (\<lambda>i. page_rows (p i)) [0..<n])"
    and s: "skip st = n * top" "requests st = n"
    and c: "count_after p n = Inr (total_count st)"
    by auto
  from Suc.prems pages have pg: "status_code (get n (mk_url (n * top))) = 200"
    "resp_json (get n (mk_url (n * top))) = Some (JObj (p n))"
    "top \<le> length (page_rows (p n))" by auto
  from count_after_cases[OF cnt Suc.prems] obtain t' where
    t': "count_after p (Suc n) = Inr t'" "t' = JNull \<or> t' = tc" by auto
  from t'(1) c have res:
    "(if total_count st = JNull then metadata_count (p n) else Inr (total_count st)) = Inr t'"
    by (simp split: if_splits)
  from t'(2) ty have ty': "progress \<and> truthy t' \<longrightarrow> max_count t' \<noteq> Inl TypeError" by auto
  note ok = fetch_page_ok[of get st mk_url "p n" t' progress, unfolded s, OF pg(1,2) res ty']
  obtain s1 r1 where p1: "fetch_page mk_url get progress st = (s1, r1)" by force
  from ok pg(3) p1 have r1: "r1 = None" and f: "records s1 = records st @ page_rows (p n)"
    "total_count s1 = t'" "requests s1 = Suc n" "skip s1 = n * top + top"
    by (auto simp: top_def)
  have "fetch_loop (n + 1) mk_url get progress init_state = fetch_loop 1 mk_url get progress st"
    by (rule fetch_loop_snoc[OF st])
  then have "fetch_loop (Suc n) mk_url get progress init_state = (s1, None)"
    by (simp add: p1 r1)
  with f r t'(1) show ?case by simp
qed

lemma run_to_short_page:
  assumes pages: "\<forall>i\<le>n. status_code (get i (mk_url (i * top))) = 200
                  \<and> resp_json (get i (mk_url (i * top))) = Some (JObj (p i))"
    and full: "\<forall>i<n. top \<le> length (page_rows (p i))"
    and short: "length (page_rows (p n)) < top"
    and cnt: "count_after p (Suc n) = Inr tc"
    and ty: "progress \<and> truthy tc \<longrightarrow> max_count tc \<noteq> Inl TypeError"
  shows "\<exists>st. fetch_loop (Suc n + k) mk_url get progress init_state = (st, Some Break)
      \<and> records st = concat (map (\<lambda>i. page_rows (p i)) [0..<Suc n])
      \<and> requests st = Suc n \<and> last_url st = mk_url (n * top) \<and> total_count st = tc"
proof -
  have pf: "\<forall>i<Suc n. status_code (get i (mk_url (i * top))) = 200
                  \<and> resp_json (get i (mk_url (i * top))) = Some (JObj (p i))
                  \<and> (i < n \<longrightarrow> top \<le> length (page_rows (p i)))"
    using pages full by auto
  have "\<exists>st. fetch_loop n mk_url get progress init_state = (st, None)
      \<and> records st = concat (map (\<lambda>i. page_rows (p i)) [0..<n])
      \<and> skip st = n * top \<and> requests st = n
      \<and> count_after p n = Inr (total_count st)"
  proof -
    from count_after_cases[OF cnt, of n] obtain t where t: "count_after p n = Inr t"
      "t = JNull \<or> t = tc" by auto
    have ty': "progress \<and> truthy t \<longrightarrow> max_count t \<noteq> Inl TypeError" using t(2) ty by auto
    have "\<forall>i<n. status_code (get i (mk_url (i * top))) = 200
                  \<and> resp_json (get i (mk_url (i * top))) = Some (JObj (p i))
                  \<and> top \<le> length (page_rows (p i))"
      using pf by auto
    from run_full_pages[where N = n and n = n and get = get and mk_url = mk_url and p = p
           and tc = t and progress = progress, OF this t(1) ty' le_refl]
    show ?thesis .
  qed
  then obtain st where st: "fetch_loop n mk_url get progress init_state = (st, None)"
    and r: "records st = concat (map (\<lambda>i. page_rows (p i)) [0..<n])"
    and s: "skip st = n * top" "requests st = n"
    and c: "count_after p n = Inr (total_count st)"
    by auto
  from pages have pg: "status_code (get n (mk_url (n * top))) = 200"
    "resp_json (get n (mk_url (n * top))) = Some (JObj (p n))" by auto
  from cnt c have res:
    "(if total_count st = JNull then metadata_count (p n) else Inr (total_count st)) = Inr tc"
    by (simp split: if_splits)
  note ok = fetch_page_ok[of get st mk_url "p n" tc progress, unfolded s, OF pg res ty]
  obtain s1 r1 where p1: "fetch_page mk_url get progress st = (s1, r1)" by force
  from ok short p1 have r1: "r1 = Some Break" and f: "records s1 = records st @ page_rows (p n)"
    "total_count s1 = tc" "requests s1 = Suc n" "last_url s1 = mk_url (n * top)"
    by auto
  have "fetch_loop (n + Suc k) mk_url get progress init_state
      = fetch_loop (Suc k) mk_url get progress st"
    by (rule fetch_loop_snoc[OF st])
  then have "fetch_loop (Suc n + k) mk_url get progress init_state = (s1, Some Break)"
    by (simp add: p1 r1)
  with f r show ?thesis by simp
qed

lemma run_still_going:
  assumes pages: "\<forall>i\<le>n. status_code (get i (mk_url (i * top))) = 200
                  \<and> resp_json (get i (mk_url (i * top))) = Some (JObj (p i))"
    and full: "\<forall>i<n. top \<le> length (page_rows (p i))"
    and cnt: "count_after p (Suc n) = Inr tc"
    and ty: "progress \<and> truthy tc \<longrightarrow> max_count tc \<noteq> Inl TypeError"
    and "m \<le> n"
  shows "\<exists>st. fetch_loop m mk_url get progress init_state = (st, None)
      \<and> skip st = m * top \<and> requests st = m"
proof -
  from count_after_cases[OF cnt, of n] obtain t where t: "count_after p n = Inr t"
    "t = JNull \<or> t = tc" by auto
  have ty': "progress \<and> truthy t \<longrightarrow> max_count t \<noteq> Inl TypeError" using t(2) ty by auto
  have "\<forall>i<n. status_code (get i (mk_url (i * top))) = 200
                  \<and> resp_json (get i (mk_url (i * top))) = Some (JObj (p i))
                  \<and> top \<le> length (page_rows (p i))"
    using pages full by auto
  from run_full_pages[where N = n and n = m and get = get and mk_url = mk_url and p = p
         and tc = t and progress = progress, OF this t(1) ty' \<open>m \<le> n\<close>]
  show ?thesis by blast
qed

lemma sim_by_offset_hyps:
  fixes filters select_fields
  defines "get \<equiv> sim_by_offset filters select_fields [1000, 1000, 400]"
    and "mk \<equiv> page_url urlencode_plain filters select_fields"
    and "p \<equiv> \<lambda>i. page_items ([1000, 1000, 400] ! i) 2400"
  shows "\<forall>i\<le>2. status_code (get i (mk (i * top))) = 200
                  \<and> resp_json (get i (mk (i * top))) = Some (JObj (p i))"
    and "\<forall>i<2. top \<le> length (page_rows (p i))"
    and "length (page_rows (p 2)) < top"
    and "count_after p (Suc 2) = Inr (JNum 2400)"
    and "concat (map (\<lambda>i. page_rows (p i)) [0..<Suc 2]) = replicate 2400 sim_row"
proof -
  have c: "i \<le> 2 \<Longrightarrow> i = 0 \<or> i = 1 \<or> i = 2" for i :: nat by arith
  have g: "i < 3 \<Longrightarrow> get j (mk (i * top)) = ok_response (JObj (p i))" for i j
    unfolding get_def mk_def p_def
    by (subst sim_by_offset_at) (simp_all add: page_payload_def)
  show "\<forall>i\<le>2. status_code (get i (mk (i * top))) = 200
                  \<and> resp_json (get i (mk (i * top))) = Some (JObj (p i))"
    by (auto simp: g ok_response_def)
  have c': "i < 2 \<Longrightarrow> i = 0 \<or> i = 1" for i :: nat by arith
  show "\<forall>i<2. top \<le> length (page_rows (p i))"
  proof (intro allI impI)
    fix i :: nat assume "i < 2"
    from c'[OF this] show "top \<le> length (page_rows (p i))"
      by (auto simp: p_def page_items_facts top_def)
  qed
  show "length (page_rows (p 2)) < top"
    by (simp add: p_def page_items_facts top_def)
  show "count_after p (Suc 2) = Inr (JNum 2400)"
    by (simp add: p_def page_items_facts numeral_2_eq_2)
  have "[0..<Suc 2] = [0, 1, 2]" by (simp add: upt_rec numeral_2_eq_2)
  then show "concat (map (\<lambda>i. page_rows (p i)) [0..<Suc 2]) = replicate 2400 sim_row"
    by (simp add: p_def page_items_facts replicate_add[symmetric])
qed

lemma whole_run:
  assumes pages: "\<forall>i\<le>n. status_code (get i (page_url urlencode filters select_fields (i * top))) = 200
      \<and> resp_json (get i (page_url urlencode filters select_fields (i * top))) = Some (JObj (p i))"
    and full: "\<forall>i<n. top \<le> length (page_rows (p i))"
    and short: "length (page_rows (p n)) < top"
    and cnt: "count_after p (Suc n) = Inr tc"
    and ty: "progress \<and> truthy tc \<longrightarrow> max_count tc \<noteq> Inl TypeError"
  shows "(\<forall>m\<le>n. snd (fetch_all m from_records urlencode get filters select_fields progress) = None
            \<and> skip (fst (fetch_all m from_records urlencode get filters select_fields progress))
                = m * top
            \<and> requests (fst (fetch_all m from_records urlencode get filters select_fields
                                progress)) = m)
    \<and> requests (fst (fetch_all (Suc n + k) from_records urlencode get filters select_fields
                        progress)) = Suc n
    \<and> records (fst (fetch_all (Suc n + k) from_records urlencode get filters select_fields
                       progress))
        = concat (map (\<lambda>i. page_rows (p i)) [0..<Suc n])
    \<and> last_url (fst (fetch_all (Suc n + k) from_records urlencode get filters select_fields
                        progress))
        = page_url urlencode filters select_fields (n * top)
    \<and> snd (fetch_all (Suc n + k) from_records urlencode get filters select_fields progress)
        = Some (case from_records (concat (map (\<lambda>i. page_rows (p i)) [0..<Suc n])) of
                  Inl e \<Rightarrow> Raised e
                | Inr df \<Rightarrow>
                    Returned df (page_url urlencode filters select_fields (n * top))
                      (or_zero tc))"
proof -
  let ?mk = "page_url urlencode filters select_fields"
  have a: "\<forall>m\<le>n. snd (fetch_all m from_records urlencode get filters select_fields progress) = None
            \<and> skip (fst (fetch_all m from_records urlencode get filters select_fields progress))
                = m * top
            \<and> requests (fst (fetch_all m from_records urlencode get filters select_fields
                                progress)) = m"
  proof (intro allI impI)
    fix m assume "m \<le> n"
    from run_still_going[where mk_url = ?mk and get = get and p = p and tc = tc and n = n
           and m = m and progress = progress, OF pages full cnt ty this]
    show "snd (fetch_all m from_records urlencode get filters select_fields progress) = None
            \<and> skip (fst (fetch_all m from_records urlencode get filters select_fields progress))
                = m * top
            \<and> requests (fst (fetch_all m from_records urlencode get filters select_fields
                                progress)) = m"
      by (auto simp: fetch_all_def finish_def)
  qed
  from run_to_short_page[where mk_url = ?mk and k = k and get = get and p = p and tc = tc
         and n = n and progress = progress, OF pages full short cnt ty]
  obtain st where l: "fetch_loop (Suc n + k) ?mk get progress init_state = (st, Some Break)"
    and f: "records st = concat (map (\<lambda>i. page_rows (p i)) [0..<Suc n])"
    "requests st = Suc n" "last_url st = ?mk (n * top)" "total_count st = tc"
    by blast
  have "fetch_all (Suc n + k) from_records urlencode get filters select_fields progress
      = finish from_records (st, Some Break)"
    unfolding fetch_all_def l ..
  then have "requests (fst (fetch_all (Suc n + k) from_records urlencode get filters
                          select_fields progress)) = Suc n
    \<and> records (fst (fetch_all (Suc n + k) from_records urlencode get filters select_fields
                       progress))
        = concat (map (\<lambda>i. page_rows (p i)) [0..<Suc n])
    \<and> last_url (fst (fetch_all (Suc n + k) from_records urlencode get filters select_fields
                        progress))
        = ?mk (n * top)
    \<and> snd (fetch_all (Suc n + k) from_records urlencode get filters select_fields progress)
        = Some (case from_records (concat (map (\<lambda>i. page_rows (p i)) [0..<Suc n])) of
                  Inl e \<Rightarrow> Raised e
                | Inr df \<Rightarrow> Returned df (?mk (n * top)) (or_zero tc))"
    by (simp only: finish_Break f fst_conv snd_conv)
  with a show ?thesis by blast
qed

lemma sim_by_offset_run:
  "snd (fetch_all 2 from_records_objects urlencode_plain
          (sim_by_offset filters select_fields [1000, 1000, 400]) filters select_fields
          progress) = None
   \<and> requests (fst (fetch_all (3 + k) from_records_objects urlencode_plain
          (sim_by_offset filters select_fields [1000, 1000, 400]) filters select_fields
          progress)) = 3
   \<and> snd (fetch_all (3 + k) from_records_objects urlencode_plain
          (sim_by_offset filters select_fields [1000, 1000, 400]) filters select_fields
          progress)
       = Some (Returned (replicate 2400 sim_row)
                 (page_url urlencode_plain filters select_fields 2000) (JNum 2400))"
proof -
  have ty: "progress \<and> truthy (JNum 2400) \<longrightarrow> max_count (JNum 2400) \<noteq> Inl TypeError" by simp
  have fr: "from_records_objects (replicate 2400 sim_row) = Inr (replicate 2400 sim_row)"
    by (rule from_records_objects_sim) auto
  have e: "Suc 2 + k = 3 + k" "2 * top = 2000" by (simp_all add: top_def)
  note h = sim_by_offset_hyps(1)[where filters = filters and select_fields = select_fields]
    sim_by_offset_hyps(2-5)
  note w = whole_run[where from_records = from_records_objects and k = k
        and urlencode = urlencode_plain and filters = filters and select_fields = select_fields
        and get = "sim_by_offset filters select_fields [1000, 1000, 400]"
        and p = "\<lambda>i. page_items ([1000, 1000, 400] ! i) 2400" and n = 2
        and tc = "JNum 2400" and progress = progress,
      OF h(1-4) ty, unfolded h(5) fr e]
  from w show ?thesis by (simp add: or_zero_def)
qed

text \<open>
  Claim C5.  The page size is 1000, and the request for the offset \<open>sk\<close> carries it in
  its \<open>$skip\<close> parameter, written in decimal digits.  A source that answers by the
  offset it is asked for, with pages of 1000, 1000 and 400 rows at the offsets 0, 1000
  and 2000, is asked three times: the loop is still going after two requests, and the
  call returns after the third with the frame of 2400 rows.  In general, let the
  requests \<open>0, ..., n\<close>, request \<open>i\<close> being the one for the offset \<open>i * top\<close>, be
  answered well (status 200, an object as body, a count that can be read and
  compared), the pages before page \<open>n\<close> holding at least \<open>top\<close> rows and page \<open>n\<close>
  fewer, possibly none.  Then the loop is still going after each of the first \<open>n\<close>
  pages, with the offset advanced to \<open>m * top\<close> after \<open>m\<close> of them, and it stops with
  page \<open>n\<close>: \<open>n + 1\<close> requests are made, the rows of all the pages are accumulated in
  their order, and the call returns their frame (or raises what building the frame
  raises) with the URL of the last request and the count.
\<close>

theorem fetch_all_pagination:
  "top = 1000
   \<and> page_url urlencode filters select_fields sk =
       API_BASE @ ''?'' @
         urlencode ([(''$filter'', filters), (''$top'', ''1000''), (''$skip'', str_nat sk),
                     (''$format'', ''json''), (''$count'', ''true'')]
                    @ (case select_fields of
                         Some (f # fs) \<Rightarrow> [(''$select'', join '','' (f # fs))]
                       | _ \<Rightarrow> []))
   \<and> digits_nat (str_nat sk) = sk
   \<and> snd (fetch_all 2 from_records_objects urlencode_plain
          (sim_by_offset filters select_fields [1000, 1000, 400]) filters select_fields
          progress) = None
   \<and> requests (fst (fetch_all (3 + k) from_records_objects urlencode_plain
          (sim_by_offset filters select_fields [1000, 1000, 400]) filters select_fields
          progress)) = 3
   \<and> snd (fetch_all (3 + k) from_records_objects urlencode_plain
          (sim_by_offset filters select_fields [1000, 1000, 400]) filters select_fields
          progress)
       = Some (Returned (replicate 2400 sim_row)
                 (page_url urlencode_plain filters select_fields 2000) (JNum 2400))
   \<and> ((\<forall>i\<le>n. status_code (get i (page_url urlencode filters select_fields (i * top))) = 200
          \<and> resp_json (get i (page_url urlencode filters select_fields (i * top)))
              = Some (JObj (p i)))
        \<and> (\<forall>i<n. top \<le> length (page_rows (p i)))
        \<and> length (page_rows (p n)) < top
        \<and> count_after p (Suc n) = Inr tc
        \<and> (progress \<and> truthy tc \<longrightarrow> max_count tc \<noteq> Inl TypeError)
      \<longrightarrow>
        (\<forall>m\<le>n. snd (fetch_all m from_records urlencode get filters select_fields progress) = None
            \<and> skip (fst (fetch_all m from_records urlencode get filters select_fields progress))
                = m * top
            \<and> requests (fst (fetch_all m from_records urlencode get filters select_fields
                                progress)) = m)
        \<and> requests (fst (fetch_all (Suc n + k) from_records urlencode get filters select_fields
                            progress)) = Suc n
        \<and> records (fst (fetch_all (Suc n + k) from_records urlencode get filters select_fields
                           progress))
            = concat (map (\<lambda>i. page_rows (p i)) [0..<Suc n])
        \<and> last_url (fst (fetch_all (Suc n + k) from_records urlencode get filters select_fields
                            progress))
            = page_url urlencode filters select_fields (n * top)
        \<and> snd (fetch_all (Suc n + k) from_records urlencode get filters select_fields progress)
            = Some (case from_records (concat (map (\<lambda>i. page_rows (p i)) [0..<Suc n])) of
                      Inl e \<Rightarrow> Raised e
                    | Inr df \<Rightarrow>
                        Returned df (page_url urlencode filters select_fields (n * top))
                          (or_zero tc)))"
  using sim_by_offset_run[of filters select_fields progress k]
    page_url_params[of urlencode filters select_fields sk] digits_nat_str_nat[of sk]
    whole_run[of n get urlencode filters select_fields p tc progress from_records k]
  by (simp only: top_def) blast

theorem fetch_all_pagination_witness:
  "status_code (sim_by_offset [] None [1000, 1000, 400] 2
       (page_url urlencode_plain [] None (2 * top))) = 200
   \<and> top \<le> length (page_rows (page_items 1000 2400))
   \<and> length (page_rows (page_items 400 2400)) < top
   \<and> count_after (\<lambda>i. page_items ([1000, 1000, 400] ! i) 2400) (Suc 2) = Inr (JNum 2400)
   \<and> max_count (JNum 2400) \<noteq> Inl TypeError
   \<and> skip (fst (fetch_all 2 from_records_objects urlencode_plain
         (sim_by_offset [] None [1000, 1000, 400]) [] None True)) = 2000
   \<and> requests (fst (fetch_all 3 from_records_objects urlencode_plain
         (sim_by_offset [] None [1000, 1000, 400]) [] None True)) = 3
   \<and> records (fst (fetch_all 3 from_records_objects urlencode_plain
         (sim_by_offset [] None [1000, 1000, 400]) [] None True)) = replicate 2400 sim_row
   \<and> snd (fetch_all 3 from_records_objects urlencode_plain
         (sim_by_offset [] None [1000, 1000, 400]) [] None True)
       = Some (Returned (replicate 2400 sim_row) (page_url urlencode_plain [] None 2000)
                 (JNum 2400))"
proof -
  let ?get = "sim_by_offset [] None [1000, 1000, 400]"
  let ?p = "\<lambda>i. page_items ([1000, 1000, 400] ! i) 2400"
  let ?all = "\<lambda>n. fetch_all n from_records_objects urlencode_plain ?get [] None True"
  note h = sim_by_offset_hyps(1)[where filters = "[]" and select_fields = None]
    sim_by_offset_hyps(2-5)
  have ty: "True \<and> truthy (JNum 2400) \<longrightarrow> max_count (JNum 2400) \<noteq> Inl TypeError" by simp
  have fr: "from_records_objects (replicate 2400 sim_row) = Inr (replicate 2400 sim_row)"
    by (rule from_records_objects_sim) auto
  from fetch_all_pagination
         [where urlencode = urlencode_plain and filters = "[]" and select_fields = None
            and progress = True and k = 0 and n = 2 and get = ?get and p = ?p
            and tc = "JNum 2400" and from_records = from_records_objects]
       h(1-4) ty
  have g: "(\<forall>m\<le>2. snd (?all m) = None \<and> skip (fst (?all m)) = m * top \<and> requests (fst (?all m)) = m)
        \<and> requests (fst (?all (Suc 2 + 0))) = Suc 2
        \<and> records (fst (?all (Suc 2 + 0))) = concat (map (\<lambda>i. page_rows (?p i)) [0..<Suc 2])
        \<and> last_url (fst (?all (Suc 2 + 0))) = page_url urlencode_plain [] None (2 * top)
        \<and> snd (?all (Suc 2 + 0))
            = Some (case from_records_objects (concat (map (\<lambda>i. page_rows (?p i)) [0..<Suc 2])) of
                      Inl e \<Rightarrow> Raised e
                    | Inr df \<Rightarrow> Returned df (page_url urlencode_plain [] None (2 * top))
                                 (or_zero (JNum 2400)))"
    by blast
  have e: "Suc 2 + 0 = 3" "2 * top = 2000" by (simp_all add: top_def)
  from g have s2: "skip (fst (?all 2)) = 2 * top" by blast
  from g have r3: "requests (fst (?all 3)) = 3"
    and c3: "records (fst (?all 3)) = replicate 2400 sim_row"
    and o3: "snd (?all 3) = Some (Returned (replicate 2400 sim_row)
                 (page_url urlencode_plain [] None 2000) (JNum 2400))"
    unfolding h(5) fr e by (simp_all add: or_zero_def)
  have a1: "status_code (?get 2 (page_url urlencode_plain [] None (2 * top))) = 200"
    using h(1) by blast
  have a2: "top \<le> length (page_rows (page_items 1000 2400))"
    and a3: "length (page_rows (page_items 400 2400)) < top"
    by (simp_all add: page_items_facts top_def)
  from a1 a2 a3 h(4) s2 r3 c3 o3 show ?thesis by (simp add: top_def)
qed

section \<open>Properties of is_water_utility\<close>

lemma starts_with_iff: "starts_with x s \<longleftrightarrow> (\<exists>ss. s = x @ ss)"
  by (induction x s rule: starts_with.induct) auto

lemma str_in_iff: "str_in x s \<longleftrightarrow> substring x s"
proof (induction s)
  case Nil
  then show ?case by (auto simp: substring_def)
next
  case (Cons c s)
  have "substring x (c # s) \<longleftrightarrow> (\<exists>ss. c # s = x @ ss) \<or> substring x s"
    unfolding substring_def
  proof
    assume "\<exists>ps ss. c # s = ps @ x @ ss"
    then obtain ps ss where e: "c # s = ps @ x @ ss" by blast
    show "(\<exists>ss. c # s = x @ ss) \<or> (\<exists>ps ss. s = ps @ x @ ss)"
    proof (cases ps)
      case Nil
      with e show ?thesis by auto
    next
      case (Cons p ps')
      with e have "s = ps' @ x @ ss" by simp
      then show ?thesis by blast
    qed
  next
    assume "(\<exists>ss. c # s = x @ ss) \<or> (\<exists>ps ss. s = ps @ x @ ss)"
    then show "\<exists>ps ss. c # s = ps @ x @ ss"
    proof
      assume "\<exists>ss. c # s = x @ ss"
      then obtain ss where "c # s = [] @ x @ ss" by auto
      then show ?thesis by blast
    next
      assume "\<exists>ps ss. s = ps @ x @ ss"
      then obtain ps ss where "c # s = (c # ps) @ x @ ss" by auto
      then show ?thesis by blast
    qed
  qed
  with Cons show ?case by (simp add: starts_with_iff)
qed

text \<open>
  Claim C3.  The classifier rejects a row whenever some exclude keyword occurs in the
  lower-cased applicant name, whatever the include keywords; otherwise it accepts the
  row if and only if some include keyword occurs in the lower-cased name and title
  joined by a space.  With no include keyword no row is accepted.
\<close>

theorem is_water_utility_policy:
  "((\<exists>x \<in> set exclude. substring x (lower_py (or_empty (applicantName row))))
      \<longrightarrow> \<not> is_water_utility row include exclude)
   \<and> (\<not> (\<exists>x \<in> set exclude. substring x (lower_py (or_empty (applicantName row))))
      \<longrightarrow> is_water_utility row include exclude
          = (\<exists>x \<in> set include.
               substring x (lower_py (or_empty (applicantName row)) @ '' ''
                              @ lower_py (or_empty (projectTitle row)))))
   \<and> \<not> is_water_utility row [] exclude"
  by (simp add: is_water_utility_def Let_def list_ex_iff str_in_iff)

theorem is_water_utility_policy_witness:
  "substring ''city'' (lower_py (or_empty (Some ''City Water Department'')))
   \<and> \<not> is_water_utility
        \<lparr>stateAbbreviation = None, applicantId = None,
         applicantName = Some ''City Water Department'', projectTitle = None,
         dateObligated = None, federalShareObligated = Null\<rparr> [''water''] [''city'']
   \<and> is_water_utility
        \<lparr>stateAbbreviation = None, applicantId = None,
         applicantName = Some ''City Water Department'', projectTitle = None,
         dateObligated = None, federalShareObligated = Null\<rparr> [''water''] []
   \<and> substring ''water'' (lower_py (or_empty (Some ''City Water Department'')) @ '' ''
                              @ lower_py (or_empty None))"
proof -
  let ?row = "\<lparr>stateAbbreviation = None, applicantId = None,
         applicantName = Some ''City Water Department'', projectTitle = None,
         dateObligated = None, federalShareObligated = Null\<rparr>"
  have a: "str_in ''city'' (lower_py (or_empty (Some ''City Water Department'')))"
    by code_simp
  have b: "str_in ''water'' (lower_py (or_empty (Some ''City Water Department'')) @ '' ''
                              @ lower_py (or_empty None))"
    by code_simp
  from is_water_utility_policy [of "[''city'']" ?row "[''water'']"]
       is_water_utility_policy [of "[]" ?row "[''water'']"] a b
  show ?thesis by (simp add: str_in_iff)
qed

section \<open>Properties of summarize\<close>

text \<open>
  Claim C10.  On an empty frame \<open>summarize\<close> returns the frame it was given, which
  is not a summary frame: the summary columns are not there.
\<close>

theorem summarize_empty_input:
  "summarize to_numeric to_datetime date_str [] include exclude = Raw []
   \<and> (\<forall>rows. summarize to_numeric to_datetime date_str [] include exclude \<noteq> Summary rows)"
  by (simp add: summarize_def)

lemma sorted_insort_pair:
  fixes f :: "'a \<Rightarrow> 'k::linorder" and g :: "'a \<Rightarrow> 'l::linorder"
  assumes "sorted (map (\<lambda>x. (f x, g x)) ys)" and "\<forall>y \<in> set ys. g a \<le> g y"
  shows "sorted (map (\<lambda>x. (f x, g x)) (insort_key f a ys))"
  using assms
proof (induction ys)
  case Nil
  then show ?case by simp
next
  case (Cons y ys)
  show ?case
  proof (cases "f a \<le> f y")
    case True
    have "\<forall>z \<in> set (y # ys). (f a, g a) \<le> (f z, g z)"
    proof
      fix z assume z: "z \<in> set (y # ys)"
      from Cons.prems(1) z have "(f y, g y) \<le> (f z, g z)" by auto
      then have "f y \<le> f z" by (auto simp: less_eq_prod_def)
      with True have "f a \<le> f z" by simp
      moreover from Cons.prems(2) z have "g a \<le> g z" by blast
      ultimately show "(f a, g a) \<le> (f z, g z)" by (auto simp: less_eq_prod_def)
    qed
    with True Cons.prems(1) show ?thesis by simp
  next
    case False
    then have lt: "(f y, g y) \<le> (f a, g a)" by (auto simp: less_eq_prod_def)
    from Cons.prems have ih: "sorted (map (\<lambda>x. (f x, g x)) (insort_key f a ys))"
      by (intro Cons.IH) auto
    have "\<forall>z \<in> set (insort_key f a ys). (f y, g y) \<le> (f z, g z)"
      using lt Cons.prems(1) by (auto simp: set_insort_key)
    with False ih show ?thesis by simp
  qed
qed

lemma sorted_sort_key_pair:
  fixes f :: "'a \<Rightarrow> 'k::linorder" and g :: "'a \<Rightarrow> 'l::linorder"
  assumes "sorted (map g xs)"
  shows "sorted (map (\<lambda>x. (f x, g x)) (sort_key f xs))"
  using assms
proof (induction xs)
  case Nil
  then show ?case by simp
next
  case (Cons a xs)
  then have "sorted (map (\<lambda>x. (f x, g x)) (sort_key f xs))" and "\<forall>y \<in> set (sort_key f xs). g a \<le> g y"
    by auto
  from sorted_insort_pair[OF this] show ?case by simp
qed

lemma row_key_aggregate: "row_key (aggregate to_numeric to_datetime k members) = k"
  by (cases k) (simp add: row_key_def aggregate_def)

lemma row_key_render: "row_key (render_dates date_str g) = row_key g"
  by (simp add: row_key_def render_dates_def)

lemma groupby_keys:
  "map row_key (groupby_agg to_numeric to_datetime sdf)
     = sort_key key_order (remdups (map group_key sdf))"
  by (simp add: groupby_agg_def comp_def row_key_aggregate)

lemma inj_na_last: "na_last a = na_last b \<Longrightarrow> a = b"
  by (auto simp: na_last_def split: option.splits)

lemma frame_rows_summarize:
  "frame_rows (summarize to_numeric to_datetime date_str df include exclude) =
     (if df = [] then []
      else map (render_dates date_str)
             (sort_values (groupby_agg to_numeric to_datetime
                (filter (\<lambda>r. is_water_utility r include exclude) df))))"
  by (simp add: summarize_def frame_rows_def Let_def)

lemma lex4:
  fixes s :: "'a::linorder" and t :: "'b::linorder" and i :: "'c::linorder" and n :: "'d::linorder"
  shows "((s, t), (s, i, n)) \<le> ((s', t'), (s', i', n')) \<Longrightarrow> (s, t, i, n) \<le> (s', t', i', n')"
  by (auto simp: less_eq_prod_def less_prod_def)

lemma sort_values_sorted:
  fixes grp :: "'d summary_row list"
  assumes "sorted (map (\<lambda>g. key_order (row_key g)) grp)"
  shows "sorted (map (\<lambda>g. (na_last (state g), - totalFederalShareObligated g,
                            na_last (grp_applicantId g), na_last (grp_applicantName g)))
                  (sort_values grp))"
proof -
  let ?f = "\<lambda>g::'d summary_row. (na_last (state g), - totalFederalShareObligated g)"
  let ?g = "\<lambda>g::'d summary_row. key_order (row_key g)"
  from sorted_sort_key_pair[OF assms, of ?f]
  have "sorted_wrt (\<lambda>x y. (?f x, ?g x) \<le> (?f y, ?g y)) (sort_values grp)"
    by (simp add: sort_values_def sorted_map)
  then have "sorted_wrt (\<lambda>x y.
        (na_last (state x), - totalFederalShareObligated x,
           na_last (grp_applicantId x), na_last (grp_applicantName x))
      \<le> (na_last (state y), - totalFederalShareObligated y,
           na_last (grp_applicantId y), na_last (grp_applicantName y))) (sort_values grp)"
    by (rule sorted_wrt_mono_rel[rotated])
       (simp only: key_order_def row_key_def prod.case, erule lex4)
  then show ?thesis by (simp add: sorted_map)
qed

lemma set_sort_values: "set (sort_values grp) = set grp"
  by (simp add: sort_values_def)

lemma groupby_sorted:
  "sorted (map (\<lambda>g. key_order (row_key g)) (groupby_agg to_numeric to_datetime sdf))"
proof -
  have "map (\<lambda>g. key_order (row_key g)) (groupby_agg to_numeric to_datetime sdf)
      = map key_order (map row_key (groupby_agg to_numeric to_datetime sdf))"
    by (simp add: comp_def)
  then show ?thesis unfolding groupby_keys by (simp add: sorted_sort_key)
qed

lemma distinct_map_sort_key:
  "distinct (map h (sort_key f xs)) = distinct (map h xs)"
  by (simp add: distinct_map)

lemma render_fields:
  "state (render_dates ds g) = state g"
  "totalFederalShareObligated (render_dates ds g) = totalFederalShareObligated g"
  "grp_applicantId (render_dates ds g) = grp_applicantId g"
  "grp_applicantName (render_dates ds g) = grp_applicantName g"
  "projectCount (render_dates ds g) = projectCount g"
  by (simp_all add: render_dates_def)

text \<open>
  Claim C7, amended.  The rows of the summary are sorted by state ascending (a missing
  state last) and, within a state, by total descending.  Rows that agree on state and
  total follow in ascending order of applicant identifier and then applicant name (a
  missing value last), which is the order in which \<open>groupby\<close> delivers the groups and
  which the stable sort keeps; no two rows have the same key, so the order of the
  summary is determined by these four columns.
\<close>

theorem summarize_sorted:
  "sorted (map (\<lambda>g. (na_last (state g), - totalFederalShareObligated g))
            (frame_rows (summarize to_numeric to_datetime date_str df include exclude)))
   \<and> sorted (map (\<lambda>g. (na_last (state g), - totalFederalShareObligated g,
                        na_last (grp_applicantId g), na_last (grp_applicantName g)))
            (frame_rows (summarize to_numeric to_datetime date_str df include exclude)))
   \<and> distinct (map row_key
            (frame_rows (summarize to_numeric to_datetime date_str df include exclude)))"
proof (cases "df = []")
  case True
  then show ?thesis by (simp add: frame_rows_summarize)
next
  case False
  let ?grp = "groupby_agg to_numeric to_datetime (filter (\<lambda>r. is_water_utility r include exclude) df)"
  have s4: "sorted (map (\<lambda>g. (na_last (state g), - totalFederalShareObligated g,
                        na_last (grp_applicantId g), na_last (grp_applicantName g)))
            (sort_values ?grp))"
    by (rule sort_values_sorted[OF groupby_sorted])
  have s2: "sorted (map (\<lambda>g. (na_last (state g), - totalFederalShareObligated g))
            (sort_values ?grp))"
    by (simp add: sort_values_def)
  have d: "distinct (map row_key (sort_values ?grp))"
    unfolding sort_values_def distinct_map_sort_key groupby_keys by simp
  from s4 s2 d False show ?thesis
    by (simp add: frame_rows_summarize comp_def render_fields row_key_render)
qed

theorem summarize_sorted_witness:
  "map totalFederalShareObligated
     (frame_rows (summarize to_numeric_digits to_datetime_none date_str_plain
        [water_row (Some ''CA'') (Some ''1'') ''A Water'' (Num 500),
         water_row (Some ''CA'') (Some ''2'') ''B Water'' (Num 1500)] [''water''] []))
     = [1500, 500]
   \<and> sorted (map (\<lambda>g. (na_last (state g), - totalFederalShareObligated g))
       (frame_rows (summarize to_numeric_digits to_datetime_none date_str_plain
        [water_row (Some ''CA'') (Some ''1'') ''A Water'' (Num 500),
         water_row (Some ''CA'') (Some ''2'') ''B Water'' (Num 1500)] [''water''] [])))"
proof -
  have "map totalFederalShareObligated
     (frame_rows (summarize to_numeric_digits to_datetime_none date_str_plain
        [water_row (Some ''CA'') (Some ''1'') ''A Water'' (Num 500),
         water_row (Some ''CA'') (Some ''2'') ''B Water'' (Num 1500)] [''water''] []))
     = [1500, 500]"
    by code_simp
  with summarize_sorted [of to_numeric_digits to_datetime_none date_str_plain
        "[water_row (Some ''CA'') (Some ''1'') ''A Water'' (Num 500),
          water_row (Some ''CA'') (Some ''2'') ''B Water'' (Num 1500)]" "[''water'']" "[]"]
  show ?thesis by blast
qed

text \<open>
  Claim C7 says that rows with equal state and total keep the order in which their
  groups are first met in the input.  Here the group of applicant 2 is met first and
  the group of applicant 1 second, both in CA with total 100, and the summary lists
  applicant 1 first.
\<close>

theorem summary_tie_order_counterexample:
  "first_seen (map group_key
      [water_row (Some ''CA'') (Some ''2'') ''B Water'' (Num 100),
       water_row (Some ''CA'') (Some ''1'') ''A Water'' (Num 100)])
     = [(Some ''CA'', Some ''2'', Some ''B Water''), (Some ''CA'', Some ''1'', Some ''A Water'')]
   \<and> map totalFederalShareObligated
       (frame_rows (summarize to_numeric_digits to_datetime_none date_str_plain
          [water_row (Some ''CA'') (Some ''2'') ''B Water'' (Num 100),
           water_row (Some ''CA'') (Some ''1'') ''A Water'' (Num 100)] [''water''] []))
     = [100, 100]
   \<and> map row_key
       (frame_rows (summarize to_numeric_digits to_datetime_none date_str_plain
          [water_row (Some ''CA'') (Some ''2'') ''B Water'' (Num 100),
           water_row (Some ''CA'') (Some ''1'') ''A Water'' (Num 100)] [''water''] []))
     = [(Some ''CA'', Some ''1'', Some ''A Water''), (Some ''CA'', Some ''2'', Some ''B Water'')]"
  by code_simp

text \<open>
  The aggregates of a row of the summary in terms of the matching rows of its group:
  the total is the sum of the coerced shares, a share that is missing or does not
  parse counting as zero, and \<open>projectCount\<close> is the number of rows of the group
  whose applicant identifier is present, hence the number of all rows of the group
  when the key of the group has an identifier.
\<close>

lemma summarize_group_aggregates:
  assumes "g \<in> set (frame_rows (summarize to_numeric to_datetime date_str df include exclude))"
  shows "filter (\<lambda>r. group_key r = row_key g) (filter (\<lambda>r. is_water_utility r include exclude) df) \<noteq> []
    \<and> totalFederalShareObligated g
        = sum_list (map (\<lambda>r. coerce_numeric to_numeric (federalShareObligated r))
            (filter (\<lambda>r. group_key r = row_key g)
               (filter (\<lambda>r. is_water_utility r include exclude) df)))
    \<and> projectCount g
        = length (filter (\<lambda>r. applicantId r \<noteq> None)
            (filter (\<lambda>r. group_key r = row_key g)
               (filter (\<lambda>r. is_water_utility r include exclude) df)))
    \<and> (grp_applicantId g \<noteq> None \<longrightarrow>
         projectCount g
           = length (filter (\<lambda>r. group_key r = row_key g)
               (filter (\<lambda>r. is_water_utility r include exclude) df)))"
proof -
  let ?sdf = "filter (\<lambda>r. is_water_utility r include exclude) df"
  from assms obtain g0 where g0: "g0 \<in> set (groupby_agg to_numeric to_datetime ?sdf)"
    and g: "g = render_dates date_str g0"
    by (auto simp: frame_rows_summarize set_sort_values split: if_splits)
  from g0 obtain k where k: "k \<in> set (map group_key ?sdf)"
    and a: "g0 = aggregate to_numeric to_datetime k (filter (\<lambda>r. group_key r = k) ?sdf)"
    by (auto simp: groupby_agg_def)
  have rk: "row_key g = k" by (simp add: g a row_key_render row_key_aggregate)
  let ?m = "filter (\<lambda>r. group_key r = k) ?sdf"
  from k have ne: "?m \<noteq> []" by (auto simp: filter_empty_conv)
  obtain s i n where kk: "k = (s, i, n)" by (cases k)
  have t: "totalFederalShareObligated g
        = sum_list (map (\<lambda>r. coerce_numeric to_numeric (federalShareObligated r)) ?m)"
    and c: "projectCount g = length (filter (\<lambda>r. applicantId r \<noteq> None) ?m)"
    and i: "grp_applicantId g = i"
    by (simp_all add: g a kk aggregate_def render_fields)
  have "\<forall>r \<in> set ?m. applicantId r = i" by (auto simp: kk group_key_def)
  then have "i \<noteq> None \<Longrightarrow> filter (\<lambda>r. applicantId r \<noteq> None) ?m = ?m"
    by (intro filter_True) auto
  with ne t c i show ?thesis unfolding rk by auto
qed

lemma summarize_unparsable_share_example:
  assumes "to_numeric ''not-a-number'' = None"
  shows "map (\<lambda>g. (projectCount g, totalFederalShareObligated g))
     (frame_rows (summarize to_numeric to_datetime_none date_str_plain
        [water_row (Some ''CA'') (Some ''7'') ''B Water'' (Num 100),
         water_row (Some ''CA'') (Some ''7'') ''B Water'' (Str ''not-a-number'')] [''water''] []))
     = [(2, 100)]"
proof -
  have w: "is_water_utility (water_row (Some ''CA'') (Some ''7'') ''B Water'' c) [''water''] []" for c
    unfolding water_row_def by code_simp
  show ?thesis
    by (simp add: frame_rows_summarize w[unfolded water_row_def] groupby_agg_def group_key_def
          water_row_def aggregate_def sort_values_def render_dates_def coerce_numeric_def assms)
qed

text \<open>
  Claim C6 at an input where the code departs from it: two matching rows of one group
  whose applicant identifier is missing, with shares 100 and \<open>"not-a-number"\<close>.  The
  unparsable share contributes zero to the total, which is 100, but \<open>projectCount\<close>
  is 0 and not 2: \<open>count\<close> on the column \<open>applicantId\<close> skips the missing cells.
\<close>

theorem summarize_missing_id_count:
  "summarize to_numeric_digits to_datetime_none date_str_plain
     [water_row (Some ''CA'') None ''B Water'' (Num 100),
      water_row (Some ''CA'') None ''B Water'' (Str ''not-a-number'')] [''water''] []
   = Summary [\<lparr>state = Some ''CA'', grp_applicantId = None, grp_applicantName = Some ''B Water'',
       projectCount = 0, totalFederalShareObligated = 100, firstDateObligated = ''NaT'',
       lastDateObligated = ''NaT''\<rparr>]"
  by code_simp

end
